theory Spec2Isabelle
  imports Complex_Main
begin

section \<open>Numbers and arrays\<close>

text \<open>
  A Python float or an entry of a numpy array is a real number, a one-dimensional
  array a \<open>real list\<close>, a batch (a two-dimensional tensor) a list of rows. The
  machine rounds the result of every arithmetic operation, and the program is
  modelled twice where that matters. Where a property is about which calls are
  made and which values are passed on, or is an equation that rounding preserves,
  the arithmetic is exact: \<open>np_mean\<close>, \<open>actions_layer\<close>, \<open>loss\<close>, \<open>preprocess_state\<close>
  and what is built on them. Where a property is about the values that come out (a
  bound, the image of an end point), every operation is followed by the rounding
  of IEEE 754: \<open>actions_layer_fl\<close>, \<open>preprocess_state_f64\<close>. The one float value
  the program can produce that is no real number, the NaN of a mean over no
  element, is the value \<open>None\<close>.
\<close>

type_synonym vec = "real list"
type_synonym tensor = "real list list"

text \<open>\<open>np.mean\<close> and \<open>K.mean\<close> without an axis: the mean of all elements.\<close>

definition np_mean :: "vec \<Rightarrow> real option" where
  "np_mean xs = (if xs = [] then None else Some (sum_list xs / real (length xs)))"

definition K_mean :: "tensor \<Rightarrow> real option" where
  "K_mean t = np_mean (concat t)"

text \<open>\<open>np.std\<close>: the square root of the mean squared distance to the mean.\<close>

definition np_std :: "vec \<Rightarrow> real option" where
  "np_std xs =
     (case np_mean xs of
        None \<Rightarrow> None
      | Some m \<Rightarrow> map_option sqrt (np_mean (map (\<lambda>x. (x - m)\<^sup>2) xs)))"

text \<open>A comparison with NaN is false.\<close>

definition nan_gt :: "real option \<Rightarrow> real \<Rightarrow> bool" where
  "nan_gt m r = (case m of None \<Rightarrow> False | Some x \<Rightarrow> x > r)"

subsection \<open>Rounding\<close>

text \<open>
  \<open>rne\<close> rounds to the nearest integer, a tie to the even one. \<open>fl p\<close> rounds to the
  nearest number with \<open>p\<close> significant bits, a tie to the one whose last bit is 0:
  the rounding of IEEE 754 with 24 bits (float32, the default of Keras) and with 53
  bits (float64, the floats of Python and the default of numpy). The exponent is
  not bounded: there is no overflow and there are no subnormal numbers.
\<close>

definition rne :: "real \<Rightarrow> int" where
  "rne x =
     (let f = \<lfloor>x\<rfloor>; d = x - of_int f
      in if d < 1 / 2 then f else if 1 / 2 < d then f + 1 else if even f then f else f + 1)"

definition expo :: "real \<Rightarrow> int" where
  "expo x = \<lfloor>log 2 \<bar>x\<bar>\<rfloor>"

definition fl :: "nat \<Rightarrow> real \<Rightarrow> real" where
  "fl p x =
     (if x = 0 then 0
      else of_int (rne (x / 2 powi (expo x - (int p - 1)))) * 2 powi (expo x - (int p - 1)))"


definition float64 :: "real \<Rightarrow> real" where
  "float64 x = fl 53 x"

section \<open>actor.py\<close>

record actor =
  state_size :: nat
  action_size :: nat
  action_low :: vec
  action_high :: vec
  action_range :: vec

text \<open>\<open>Actor.__init__\<close>: \<open>self.action_range = action_high - action_low\<close>.\<close>

definition Actor_init :: "nat \<Rightarrow> nat \<Rightarrow> vec \<Rightarrow> vec \<Rightarrow> actor" where
  "Actor_init ssize asize low high =
     \<lparr>state_size = ssize, action_size = asize, action_low = low, action_high = high,
      action_range = map2 (-) high low\<rparr>"

text \<open>
  The layer named \<open>actions\<close> of \<open>build_model\<close>, on one row of the batch:
  \<open>lambda x: ((x + 1) * self.action_range / 2) + self.action_low\<close>.
\<close>

definition actions_layer :: "actor \<Rightarrow> vec \<Rightarrow> vec" where
  "actions_layer A x =
     map2 (+) (map (\<lambda>y. y / 2) (map2 (*) (map (\<lambda>xi. xi + 1) x) (action_range A)))
       (action_low A)"

text \<open>
  The formula of the specification, word for word:
  \<open>scaled = low + (raw_tanh + 1) * (high - low) / 2\<close>.
\<close>

definition spec_scaled :: "vec \<Rightarrow> vec \<Rightarrow> vec \<Rightarrow> vec" where
  "spec_scaled low high raw_tanh =
     map2 (+) low (map (\<lambda>y. y / 2) (map2 (*) (map (\<lambda>xi. xi + 1) raw_tanh) (map2 (-) high low)))"



text \<open>
  The loss of \<open>build_model\<close>: \<open>K.mean(-action_gradients * actions)\<close>, where
  \<open>actions\<close> is the output of the layer above on the batch of raw outputs.
\<close>

definition tneg :: "tensor \<Rightarrow> tensor" where
  "tneg t = map (map uminus) t"

definition tmul :: "tensor \<Rightarrow> tensor \<Rightarrow> tensor" where
  "tmul s t = map2 (map2 (*)) s t"

definition loss :: "actor \<Rightarrow> tensor \<Rightarrow> tensor \<Rightarrow> real option" where
  "loss A action_gradients raw_actions =
     K_mean (tmul (tneg action_gradients) (map (actions_layer A) raw_actions))"

section \<open>mountain\_car.py\<close>

datatype error = IndexError | ValueError

text \<open>
  \<open>preprocess_state\<close> copies the state and overwrites its entries 0 and 1; a state
  with fewer than two entries raises IndexError.
\<close>

definition preprocess_state :: "vec \<Rightarrow> error + vec" where
  "preprocess_state state =
     (if length state < 2 then Inl IndexError
      else Inr ((state[0 := ((state ! 0 + 1.2) / 1.8) * 2 - 1])
                  [1 := ((state ! 1 + 0.07) / 0.14) * 2 - 1]))"

text \<open>
  \<open>preprocess_state\<close> with the arithmetic of Python on a float64 state: the
  literals \<open>1.2\<close>, \<open>1.8\<close>, \<open>0.07\<close> and \<open>0.14\<close> are the nearest float64 numbers,
  and the sum, the quotient, the product and the difference are rounded in turn.
\<close>

definition preprocess_state_f64 :: "vec \<Rightarrow> error + vec" where
  "preprocess_state_f64 state =
     (if length state < 2 then Inl IndexError
      else Inr ((state[0 := float64 (float64 (float64 (float64 (state ! 0 + float64 1.2) /
                                float64 1.8) * 2) - 1)])
                  [1 := float64 (float64 (float64 (float64 (state ! 1 + float64 0.07) /
                                float64 0.14) * 2) - 1)]))"

text \<open>The two expressions of \<open>preprocess_state_f64\<close>, as functions of the entry.\<close>

definition pos_scaled :: "real \<Rightarrow> real" where
  "pos_scaled p = float64 (float64 (float64 (float64 (p + float64 1.2) / float64 1.8) * 2) - 1)"

definition vel_scaled :: "real \<Rightarrow> real" where
  "vel_scaled v = float64 (float64 (float64 (float64 (v + float64 0.07) / float64 0.14) * 2) - 1)"

text \<open>
  The environment (a gym environment) and the agent (a \<open>DDPG\<close> object, whose
  module is outside this development) are collaborators of \<open>MountainCar\<close>: their
  operations are parameters of the model, arbitrary functions on a state \<open>'w\<close> that
  holds everything they own (physics, weights, replay buffer, noise, random
  streams). Every call is logged, with its arguments and its result, in a trace.
\<close>

record 'w collaborators =
  env_reset :: "'w \<Rightarrow> vec \<times> 'w"
  env_step :: "vec \<Rightarrow> 'w \<Rightarrow> (vec \<times> real \<times> bool) \<times> 'w"
  env_render :: "'w \<Rightarrow> 'w"
  env_close :: "'w \<Rightarrow> 'w"
  new_env :: "'w \<Rightarrow> 'w"
  agent_reset_episode :: "vec \<Rightarrow> 'w \<Rightarrow> 'w"
  agent_act :: "vec \<Rightarrow> 'w \<Rightarrow> (vec \<times> vec) \<times> 'w"
  agent_step :: "vec \<Rightarrow> real \<Rightarrow> vec \<Rightarrow> bool \<Rightarrow> 'w \<Rightarrow> 'w"
  critic_predict :: "vec \<Rightarrow> real \<Rightarrow> 'w \<Rightarrow> real \<times> 'w"
  actor_predict :: "vec \<Rightarrow> 'w \<Rightarrow> real \<times> 'w"

datatype event =
    EnvReset vec
  | EnvStep vec vec real bool
  | EnvRender
  | EnvClose
  | NewEnv
  | ResetEpisode vec
  | Act vec vec vec
  | AgentStep vec real vec bool
  | CriticPredict vec real real
  | ActorPredict vec real
  | ShowPlots tensor tensor tensor tensor vec

text \<open>
  \<open>EnvReset s\<close>: \<open>env.reset()\<close> returned \<open>s\<close>. \<open>EnvStep a s r d\<close>: \<open>env.step(a)\<close>
  returned \<open>(s, r, d, info)\<close>. \<open>Act s n p\<close>: \<open>agent.act(s)\<close> returned the noisy
  action \<open>n\<close> and the pure action \<open>p\<close>. \<open>ResetEpisode s\<close> and \<open>AgentStep a r s d\<close>:
  the calls \<open>agent.reset_episode(s)\<close> and \<open>agent.step(a, r, s, d)\<close>.
  \<open>CriticPredict s a q\<close>: \<open>agent.critic_local.model.predict([s, a])\<close> returned
  \<open>q\<close>. \<open>ActorPredict s a\<close>: \<open>agent.actor_local.model.predict(s)\<close> returned \<open>a\<close>.
  \<open>ShowPlots Q sQ mQ A extent\<close>: the four heatmaps were drawn and shown (the calls
  of matplotlib, which touch neither the environment nor the agent, as one event).
\<close>

type_synonym 'w sys = "'w \<times> event list"

text \<open>
  A call returns a value, raises, or is still running when the fuel (a bound on the
  iterations of the \<open>while\<close> loop) is used up; each outcome carries the state
  reached.
\<close>

datatype ('a, 'w) outcome =
    Returned 'a "'w sys"
  | Raised error "'w sys"
  | Diverged "'w sys"

fun trace_of :: "('a, 'w) outcome \<Rightarrow> event list" where
  "trace_of (Returned x s) = snd s"
| "trace_of (Raised e s) = snd s"
| "trace_of (Diverged s) = snd s"

fun world_of :: "('a, 'w) outcome \<Rightarrow> 'w" where
  "world_of (Returned x s) = fst s"
| "world_of (Raised e s) = fst s"
| "world_of (Diverged s) = fst s"


text \<open>The local variables of \<open>run_epoch\<close> that the loop updates.\<close>

record vars =
  state :: vec
  actions_list :: "vec list"
  total_reward :: real
  steps :: nat
  is_done :: bool

text \<open>
  One iteration of the \<open>while\<close> loop of \<open>run_epoch\<close>, from \<open>steps += 1\<close> to the
  \<open>break\<close> (taken by the loop below, when \<open>done\<close> is set).
\<close>

definition loop_body ::
  "'w collaborators \<Rightarrow> bool \<Rightarrow> bool \<Rightarrow> vars \<Rightarrow> 'w sys \<Rightarrow> (vars, 'w) outcome" where
  "loop_body E render training v s =
     (case s of (w, tr) \<Rightarrow>
      case agent_act E (state v) w of ((noisy_action, pure_action), w1) \<Rightarrow>
      let tr1 = tr @ [Act (state v) noisy_action pure_action];
          action = (if training then noisy_action else pure_action)
      in case env_step E action w1 of ((next_raw, reward, d), w2) \<Rightarrow>
      let tr2 = tr1 @ [EnvStep action next_raw reward d]
      in case preprocess_state next_raw of
           Inl e \<Rightarrow> Raised e (w2, tr2)
         | Inr next_state \<Rightarrow>
           let v' = \<lparr>state = next_state,
                     actions_list = actions_list v @ [pure_action],
                     total_reward = total_reward v + reward,
                     steps = steps v + 1,
                     is_done = d\<rparr>;
               s3 = (if training
                     then (agent_step E action reward next_state d w2,
                           tr2 @ [AgentStep action reward next_state d])
                     else (w2, tr2));
               s4 = (if render then (env_render E (fst s3), snd s3 @ [EnvRender]) else s3);
               s5 = (if d \<and> render
                     then (new_env E (env_close E (fst s4)), snd s4 @ [EnvClose, NewEnv])
                     else s4)
           in Returned v' s5)"

fun run_epoch_loop ::
  "nat \<Rightarrow> 'w collaborators \<Rightarrow> bool \<Rightarrow> bool \<Rightarrow> vars \<Rightarrow> 'w sys \<Rightarrow> (vars, 'w) outcome" where
  "run_epoch_loop 0 E render training v s =
     (if is_done v then Returned v s else Diverged s)"
| "run_epoch_loop (Suc fuel) E render training v s =
     (if is_done v then Returned v s
      else case loop_body E render training v s of
             Returned v' s' \<Rightarrow> run_epoch_loop fuel E render training v' s'
           | Raised e s' \<Rightarrow> Raised e s'
           | Diverged s' \<Rightarrow> Diverged s')"

text \<open>
  \<open>run_epoch\<close> returns \<open>(total_reward, done, action_mean, action_std, steps)\<close>;
  the two statistics are taken over all entries of the recorded actions.
\<close>

type_synonym epoch_result = "real \<times> bool \<times> real option \<times> real option \<times> nat"

definition run_epoch ::
  "nat \<Rightarrow> 'w collaborators \<Rightarrow> bool \<Rightarrow> bool \<Rightarrow> 'w sys \<Rightarrow> (epoch_result, 'w) outcome" where
  "run_epoch fuel E render training s =
     (case s of (w, tr) \<Rightarrow>
      case env_reset E w of (raw, w1) \<Rightarrow>
      let tr1 = tr @ [EnvReset raw]
      in case preprocess_state raw of
           Inl e \<Rightarrow> Raised e (w1, tr1)
         | Inr st \<Rightarrow>
           let s2 = (agent_reset_episode E st w1, tr1 @ [ResetEpisode st])
           in case run_epoch_loop fuel E render training
                     \<lparr>state = st, actions_list = [], total_reward = 0, steps = 0,
                      is_done = False\<rparr> s2 of
                Returned v s' \<Rightarrow>
                  Returned (total_reward v, is_done v, np_mean (concat (actions_list v)),
                            np_std (concat (actions_list v)), steps v) s'
              | Raised e s' \<Rightarrow> Raised e s'
              | Diverged s' \<Rightarrow> Diverged s')"

subsection \<open>plot\_Q\<close>

text \<open>
  \<open>np.arange(start, stop, step)\<close>: the values \<open>start + i * step\<close>, as many as
  the ceiling of \<open>(stop - start) / step\<close>. \<open>np.max\<close> and \<open>np.argmax\<close> raise
  ValueError on an empty sequence (\<open>None\<close> here); \<open>np.argmax\<close> is the first
  index of the maximum.
\<close>

definition np_arange :: "real \<Rightarrow> real \<Rightarrow> real \<Rightarrow> vec" where
  "np_arange start stop step =
     map (\<lambda>i. start + real i * step) [0..<nat \<lceil>(stop - start) / step\<rceil>]"

definition np_max :: "vec \<Rightarrow> real option" where
  "np_max xs = (case xs of [] \<Rightarrow> None | x # ys \<Rightarrow> Some (fold max ys x))"

definition np_argmax :: "vec \<Rightarrow> nat option" where
  "np_argmax xs =
     (case np_max xs of
        None \<Rightarrow> None
      | Some m \<Rightarrow> Some (length (takeWhile (\<lambda>x. x \<noteq> m) xs)))"

record matrices =
  matrix_Q :: tensor
  matrix_mQ :: tensor
  matrix_sQ :: tensor
  matrix_A :: tensor

text \<open>The assignment \<open>m[i][j] = x\<close>.\<close>

definition set_cell :: "tensor \<Rightarrow> nat \<Rightarrow> nat \<Rightarrow> real \<Rightarrow> tensor" where
  "set_cell m i j x = m[i := (m ! i)[j := x]]"

text \<open>The loop \<open>for a in action_range\<close>, which fills \<open>Q_list\<close>.\<close>

fun predict_Q_list ::
  "'w collaborators \<Rightarrow> vec \<Rightarrow> vec \<Rightarrow> vec \<Rightarrow> 'w sys \<Rightarrow> vec \<times> 'w sys" where
  "predict_Q_list E st [] Q_list s = (Q_list, s)"
| "predict_Q_list E st (a # rest) Q_list s =
     (case critic_predict E st a (fst s) of
        (q, w1) \<Rightarrow>
          predict_Q_list E st rest (Q_list @ [q]) (w1, snd s @ [CriticPredict st a q]))"

text \<open>The body of the two nested loops, for one \<open>i\<close> and one \<open>j\<close>.\<close>

definition plot_cell ::
  "'w collaborators \<Rightarrow> vec \<Rightarrow> vec \<Rightarrow> nat \<Rightarrow> nat \<Rightarrow> matrices \<Rightarrow> 'w sys \<Rightarrow>
     (matrices, 'w) outcome" where
  "plot_cell E plot_range act_range i j M s =
     (let pos = plot_range ! j;
          vel = plot_range ! i;
          st = [pos, vel]
      in case predict_Q_list E st act_range [] s of
           (Q_list, s1) \<Rightarrow>
             (case (np_max Q_list, np_std Q_list, np_argmax Q_list) of
                (Some mx, Some sd, Some k) \<Rightarrow>
                  (case actor_predict E st (fst s1) of
                     (a, w2) \<Rightarrow>
                       Returned
                         (M\<lparr>matrix_Q := set_cell (matrix_Q M) i j mx,
                            matrix_sQ := set_cell (matrix_sQ M) i j sd,
                            matrix_mQ := set_cell (matrix_mQ M) i j (act_range ! k),
                            matrix_A := set_cell (matrix_A M) i j a\<rparr>)
                         (w2, snd s1 @ [ActorPredict st a]))
              | _ \<Rightarrow> Raised ValueError s1))"

fun plot_row ::
  "'w collaborators \<Rightarrow> vec \<Rightarrow> vec \<Rightarrow> nat \<Rightarrow> nat list \<Rightarrow> matrices \<Rightarrow> 'w sys \<Rightarrow>
     (matrices, 'w) outcome" where
  "plot_row E plot_range act_range i [] M s = Returned M s"
| "plot_row E plot_range act_range i (j # js) M s =
     (case plot_cell E plot_range act_range i j M s of
        Returned M' s' \<Rightarrow> plot_row E plot_range act_range i js M' s'
      | Raised e s' \<Rightarrow> Raised e s'
      | Diverged s' \<Rightarrow> Diverged s')"

fun plot_grid ::
  "'w collaborators \<Rightarrow> vec \<Rightarrow> vec \<Rightarrow> nat list \<Rightarrow> nat list \<Rightarrow> matrices \<Rightarrow> 'w sys \<Rightarrow>
     (matrices, 'w) outcome" where
  "plot_grid E plot_range act_range [] js M s = Returned M s"
| "plot_grid E plot_range act_range (i # is) js M s =
     (case plot_row E plot_range act_range i js M s of
        Returned M' s' \<Rightarrow> plot_grid E plot_range act_range is js M' s'
      | Raised e s' \<Rightarrow> Raised e s'
      | Diverged s' \<Rightarrow> Diverged s')"

definition plot_Q :: "'w collaborators \<Rightarrow> 'w sys \<Rightarrow> (unit, 'w) outcome" where
  "plot_Q E s =
     (let state_step = 0.1;
          action_step = 0.1;
          plot_range = np_arange (- 1) (1 + state_step) state_step;
          act_range = np_arange (- 1) (1 + action_step) action_step;
          shape = length plot_range;
          zeros = replicate shape (replicate shape 0)
      in case plot_grid E plot_range act_range [0..<shape] [0..<shape]
                \<lparr>matrix_Q = zeros, matrix_mQ = zeros, matrix_sQ = zeros, matrix_A = zeros\<rparr> s of
           Returned M s' \<Rightarrow>
             (if plot_range = [] then Raised IndexError s'
              else Returned ()
                     (fst s',
                      snd s' @ [ShowPlots (matrix_Q M) (matrix_sQ M) (matrix_mQ M) (matrix_A M)
                                  [hd plot_range, last plot_range,
                                   hd plot_range, last plot_range]]))
         | Raised e s' \<Rightarrow> Raised e s'
         | Diverged s' \<Rightarrow> Diverged s')"

subsection \<open>run\_model\<close>

text \<open>
  The slice \<open>xs[i:]\<close> of Python: a negative \<open>i\<close> counts from the end, and a start
  before the first element is the first element.
\<close>

definition slice_from :: "int \<Rightarrow> 'a list \<Rightarrow> 'a list" where
  "slice_from i xs =
     (if i < 0 then drop (nat (int (length xs) + i)) xs else drop (nat i) xs)"

type_synonym hist = "(real \<times> nat) list"

text \<open>
  The \<open>for\<close> loop of \<open>run_model\<close> over the epochs still to run. The value
  \<open>solved\<close> is \<open>False\<close> (here \<open>None\<close>) or an epoch. What is printed is not modelled.
\<close>

fun run_model_loop ::
  "nat \<Rightarrow> 'w collaborators \<Rightarrow> int \<Rightarrow> real \<Rightarrow> int list \<Rightarrow> hist \<Rightarrow> hist \<Rightarrow> 'w sys \<Rightarrow>
     (hist \<times> hist \<times> int option, 'w) outcome" where
  "run_model_loop fuel E n_solved r_solved [] train_hist test_hist s =
     Returned (train_hist, test_hist, None) s"
| "run_model_loop fuel E n_solved r_solved (epoch # epochs) train_hist test_hist s =
     (case run_epoch fuel E False True s of
        Raised e s1 \<Rightarrow> Raised e s1
      | Diverged s1 \<Rightarrow> Diverged s1
      | Returned (train_reward, train_done, train_action_mean, train_action_std, train_steps) s1 \<Rightarrow>
     (case run_epoch fuel E False False s1 of
        Raised e s2 \<Rightarrow> Raised e s2
      | Diverged s2 \<Rightarrow> Diverged s2
      | Returned (test_reward, test_done, test_action_mean, test_action_std, test_steps) s2 \<Rightarrow>
          let train_hist' = train_hist @ [(train_reward, train_steps)];
              test_hist' = test_hist @ [(test_reward, test_steps)];
              train_running =
                (if epoch > n_solved
                 then np_mean (slice_from (- n_solved) (map fst train_hist'))
                 else np_mean (map fst train_hist'));
              test_running =
                (if epoch > n_solved
                 then np_mean (slice_from (- n_solved) (map fst test_hist'))
                 else np_mean (map fst test_hist'))
          in if nan_gt test_running r_solved \<and> epoch > n_solved
             then Returned (train_hist', test_hist', Some epoch) s2
             else run_model_loop fuel E n_solved r_solved epochs train_hist' test_hist' s2))"

definition run_model ::
  "nat \<Rightarrow> 'w collaborators \<Rightarrow> int \<Rightarrow> int \<Rightarrow> real \<Rightarrow> bool \<Rightarrow> 'w sys \<Rightarrow>
     (hist \<times> hist \<times> int option, 'w) outcome" where
  "run_model fuel E max_epochs n_solved r_solved plot_Q_flag s =
     (case run_model_loop fuel E n_solved r_solved [1..max_epochs] [] [] s of
        Returned res s' \<Rightarrow>
          (if plot_Q_flag
           then (case plot_Q E s' of
                   Returned u s'' \<Rightarrow> Returned res s''
                 | Raised e s'' \<Rightarrow> Raised e s''
                 | Diverged s'' \<Rightarrow> Diverged s'')
           else Returned res s')
      | Raised e s' \<Rightarrow> Raised e s'
      | Diverged s' \<Rightarrow> Diverged s')"

text \<open>What \<open>run_model\<close> returned, when it did.\<close>

fun test_rewards :: "(hist \<times> hist \<times> int option, 'w) outcome \<Rightarrow> real list option" where
  "test_rewards (Returned (train_hist, test_hist, solved) s) = Some (map fst test_hist)"
| "test_rewards (Raised e s) = None"
| "test_rewards (Diverged s) = None"

fun solved_value :: "(hist \<times> hist \<times> int option, 'w) outcome \<Rightarrow> int option option" where
  "solved_value (Returned (train_hist, test_hist, solved) s) = Some solved"
| "solved_value (Raised e s) = None"
| "solved_value (Diverged s) = None"

text \<open>
  The condition of the \<open>if\<close> that sets \<open>solved\<close>, as \<open>run_model\<close> computes it at
  an epoch from the test history up to this epoch.
\<close>

definition solved_at :: "int \<Rightarrow> real \<Rightarrow> int \<Rightarrow> hist \<Rightarrow> bool" where
  "solved_at n_solved r_solved epoch test_hist =
     (nan_gt (if epoch > n_solved
              then np_mean (slice_from (- n_solved) (map fst test_hist))
              else np_mean (map fst test_hist)) r_solved \<and>
      epoch > n_solved)"

subsection \<open>The solved condition, as the specification words it\<close>

text \<open>
  The running mean of the last \<open>n\<close> rewards of a sequence (of all of them, while
  there are fewer than \<open>n\<close>).
\<close>

definition last_n :: "nat \<Rightarrow> 'a list \<Rightarrow> 'a list" where
  "last_n n xs = drop (length xs - n) xs"

definition running_mean :: "nat \<Rightarrow> real list \<Rightarrow> real" where
  "running_mean n rs = sum_list (last_n n rs) / real (length (last_n n rs))"

text \<open>
  The first epoch (counted from 1) at which the running mean of the last \<open>n\<close>
  test rewards exceeds \<open>r\<close>: the epoch at which the specification says the
  solved condition triggers.
\<close>

definition first_exceeding :: "nat \<Rightarrow> real \<Rightarrow> real list \<Rightarrow> nat option" where
  "first_exceeding n r rs =
     find (\<lambda>k. running_mean n (take k rs) > r) [1..<Suc (length rs)]"

text \<open>What a trace says: the projections the properties are stated with.\<close>

fun step_rewards :: "event list \<Rightarrow> real list" where
  "step_rewards [] = []"
| "step_rewards (EnvStep a s r d # es) = r # step_rewards es"
| "step_rewards (e # es) = step_rewards es"

fun env_step_actions :: "event list \<Rightarrow> vec list" where
  "env_step_actions [] = []"
| "env_step_actions (EnvStep a s r d # es) = a # env_step_actions es"
| "env_step_actions (e # es) = env_step_actions es"

fun agent_step_actions :: "event list \<Rightarrow> vec list" where
  "agent_step_actions [] = []"
| "agent_step_actions (AgentStep a r s d # es) = a # agent_step_actions es"
| "agent_step_actions (e # es) = agent_step_actions es"

fun act_results :: "event list \<Rightarrow> (vec \<times> vec) list" where
  "act_results [] = []"
| "act_results (Act s n p # es) = (n, p) # act_results es"
| "act_results (e # es) = act_results es"

fun is_agent_call :: "event \<Rightarrow> bool" where
  "is_agent_call (ResetEpisode s) = True"
| "is_agent_call (Act s n p) = True"
| "is_agent_call (AgentStep a r s d) = True"
| "is_agent_call e = False"

definition agent_calls :: "event list \<Rightarrow> event list" where
  "agent_calls tr = filter is_agent_call tr"

text \<open>
  The calls of the agent after \<open>reset_episode\<close>: in training, \<open>act\<close> and \<open>step\<close>
  in turn, every \<open>step\<close> right after an \<open>act\<close>; otherwise \<open>act\<close> alone.
\<close>

fun alternates :: "bool \<Rightarrow> event list \<Rightarrow> bool" where
  "alternates training [] = True"
| "alternates training (e # es) =
     (case e of
        Act s n p \<Rightarrow>
          (if training
           then (case es of
                   [] \<Rightarrow> False
                 | e' # es' \<Rightarrow>
                     (case e' of
                        AgentStep a r s' d \<Rightarrow> alternates training es'
                      | _ \<Rightarrow> False))
           else alternates training es)
      | _ \<Rightarrow> False)"

text \<open>The action \<open>run_epoch\<close> chooses from the two that \<open>act\<close> returns.\<close>

definition chosen :: "bool \<Rightarrow> vec \<times> vec \<Rightarrow> vec" where
  "chosen training np = (if training then fst np else snd np)"

text \<open>
  The episodes of a trace: for every \<open>env.reset\<close>, the sum of the rewards and the
  number of the \<open>env.step\<close> calls made until the next \<open>env.reset\<close>.
\<close>

fun episodes_from :: "(real \<times> nat) option \<Rightarrow> event list \<Rightarrow> hist" where
  "episodes_from cur [] = (case cur of None \<Rightarrow> [] | Some c \<Rightarrow> [c])"
| "episodes_from cur (e # es) =
     (case e of
        EnvReset s \<Rightarrow>
          (case cur of None \<Rightarrow> [] | Some c \<Rightarrow> [c]) @ episodes_from (Some (0, 0)) es
      | EnvStep a s r d \<Rightarrow> episodes_from (map_option (\<lambda>(t, n). (t + r, Suc n)) cur) es
      | _ \<Rightarrow> episodes_from cur es)"

definition episodes :: "event list \<Rightarrow> hist" where
  "episodes tr = episodes_from None tr"

text \<open>The two histories in the order of the run: training, test, training, ...\<close>

definition interleave :: "'a list \<Rightarrow> 'a list \<Rightarrow> 'a list" where
  "interleave xs ys = concat (map2 (\<lambda>x y. [x, y]) xs ys)"

text \<open>The calls \<open>plot_Q\<close> makes: predictions of the two local networks, and plots.\<close>

fun is_predict_or_plot :: "event \<Rightarrow> bool" where
  "is_predict_or_plot (CriticPredict s a q) = True"
| "is_predict_or_plot (ActorPredict s a) = True"
| "is_predict_or_plot (ShowPlots Q sQ mQ A extent) = True"
| "is_predict_or_plot e = False"

text \<open>A prediction that reads the networks and changes nothing.\<close>

definition predict_read_only :: "'w collaborators \<Rightarrow> bool" where
  "predict_read_only E =
     ((\<forall>st a w. snd (critic_predict E st a w) = w) \<and> (\<forall>st w. snd (actor_predict E st w) = w))"

subsection \<open>A small environment and agent\<close>

text \<open>
  The state counts the episodes started and the steps of the current one. An episode
  ends at its second step; a step of the second episode is rewarded 47.5, any other
  25. The agent always answers the noisy action 1 and the pure action 0.5.
\<close>

definition demo :: "(nat \<times> nat) collaborators" where
  "demo =
     \<lparr>env_reset = (\<lambda>w. ([- 0.5, 0], (fst w + 1, 0))),
      env_step = (\<lambda>a w. (([0.6, 0.07], (if fst w = 2 then 47.5 else 25), 1 \<le> snd w),
                          (fst w, snd w + 1))),
      env_render = (\<lambda>w. w),
      env_close = (\<lambda>w. w),
      new_env = (\<lambda>w. w),
      agent_reset_episode = (\<lambda>st w. w),
      agent_act = (\<lambda>st w. (([1], [0.5]), w)),
      agent_step = (\<lambda>a r st d w. w),
      critic_predict = (\<lambda>st a w. (a, w)),
      actor_predict = (\<lambda>st w. (0, w))\<rparr>"

text \<open>The calls of its first episode in training, and of the test episode after it.\<close>

definition demo_train_trace :: "event list" where
  "demo_train_trace =
     [EnvReset [- 0.5, 0], ResetEpisode [- (2 / 9), 0],
      Act [- (2 / 9), 0] [1] [0.5], EnvStep [1] [0.6, 0.07] 25 False,
      AgentStep [1] 25 [1, 1] False,
      Act [1, 1] [1] [0.5], EnvStep [1] [0.6, 0.07] 25 True,
      AgentStep [1] 25 [1, 1] True]"

definition demo_test_trace :: "event list" where
  "demo_test_trace =
     [EnvReset [- 0.5, 0], ResetEpisode [- (2 / 9), 0],
      Act [- (2 / 9), 0] [1] [0.5], EnvStep [0.5] [0.6, 0.07] 47.5 False,
      Act [1, 1] [1] [0.5], EnvStep [0.5] [0.6, 0.07] 47.5 True]"

text \<open>The calls of a test episode other than the second episode.\<close>

definition demo_plain_test_trace :: "event list" where
  "demo_plain_test_trace =
     [EnvReset [- 0.5, 0], ResetEpisode [- (2 / 9), 0],
      Act [- (2 / 9), 0] [1] [0.5], EnvStep [0.5] [0.6, 0.07] 25 False,
      Act [1, 1] [1] [0.5], EnvStep [0.5] [0.6, 0.07] 25 True]"

section \<open>Rounding to nearest\<close>

lemma rne_of_int: "rne (of_int k) = k"
  by (simp add: rne_def)

lemma rne_floor_le: "\<lfloor>x\<rfloor> \<le> rne x"
  by (simp add: rne_def Let_def)

lemma rne_le_floor_Suc: "rne x \<le> \<lfloor>x\<rfloor> + 1"
  by (simp add: rne_def Let_def)

lemma rne_mono:
  assumes "x \<le> y"
  shows "rne x \<le> rne y"
proof (cases "\<lfloor>x\<rfloor> = \<lfloor>y\<rfloor>")
  case True
  have "x - of_int \<lfloor>x\<rfloor> \<le> y - of_int \<lfloor>y\<rfloor>" using assms True by simp
  then show ?thesis using True by (auto simp: rne_def Let_def)
next
  case False
  have "\<lfloor>x\<rfloor> \<le> \<lfloor>y\<rfloor>" using assms by (rule floor_mono)
  with False have "\<lfloor>x\<rfloor> + 1 \<le> \<lfloor>y\<rfloor>" by simp
  then show ?thesis using rne_le_floor_Suc [of x] rne_floor_le [of y] by linarith
qed

lemma rne_uminus: "rne (- x) = - rne x"
proof (cases "x \<in> \<int>")
  case True
  then obtain k where "x = of_int k" by (auto elim: Ints_cases)
  then have "- x = of_int (- k)" by simp
  then show ?thesis using \<open>x = of_int k\<close> by (simp only: rne_of_int)
next
  case False
  then have ne: "x \<noteq> of_int \<lfloor>x\<rfloor>" by (metis Ints_of_int)
  define f where "f = \<lfloor>x\<rfloor>"
  define d where "d = x - of_int f"
  have lo: "of_int f < x" using ne floor_correct [of x] unfolding f_def by linarith
  have hi: "x < of_int f + 1" using floor_correct [of x] unfolding f_def by linarith
  have fl: "\<lfloor>- x\<rfloor> = - f - 1"
  proof (rule floor_unique)
    show "of_int (- f - 1) \<le> - x" using hi by simp
    show "- x < of_int (- f - 1) + 1" using lo by simp
  qed
  have d: "0 < d" "d < 1"
    using lo hi unfolding d_def by simp_all
  have d': "- x - of_int (- f - 1) = 1 - d" by (simp add: d_def)
  have "rne x = (if d < 1 / 2 then f else if 1 / 2 < d then f + 1 else if even f then f else f + 1)"
    unfolding rne_def Let_def d_def f_def by (rule refl)
  moreover have "rne (- x) = (if 1 - d < 1 / 2 then - f - 1 else if 1 / 2 < 1 - d then - f - 1 + 1
      else if even (- f - 1) then - f - 1 else - f - 1 + 1)"
    unfolding rne_def Let_def fl d' by (rule refl)
  ultimately show ?thesis using d by auto
qed

lemma powi_eq_powr: "(2::real) powi e = 2 powr (of_int e)"
  by (simp add: powr_real_of_int')

lemma expo_bounds:
  assumes "x \<noteq> 0"
  shows "2 powi expo x \<le> \<bar>x\<bar>" and "\<bar>x\<bar> < 2 powi (expo x + 1)"
proof -
  have a: "0 < \<bar>x\<bar>" using assms by simp
  have "2 powr (of_int \<lfloor>log 2 \<bar>x\<bar>\<rfloor>) \<le> 2 powr (log 2 \<bar>x\<bar>)"
    by (rule powr_mono) simp_all
  then show "2 powi expo x \<le> \<bar>x\<bar>" using a by (simp add: expo_def powi_eq_powr)
  have "2 powr (log 2 \<bar>x\<bar>) < 2 powr (of_int (\<lfloor>log 2 \<bar>x\<bar>\<rfloor> + 1))"
    by (rule powr_less_mono) simp_all
  then show "\<bar>x\<bar> < 2 powi (expo x + 1)" using a by (simp add: expo_def powi_eq_powr)
qed

lemma expo_unique:
  assumes "2 powi e \<le> \<bar>x\<bar>" "\<bar>x\<bar> < 2 powi (e + 1)"
  shows "expo x = e"
proof -
  have a: "0 < \<bar>x\<bar>" using assms(1) by (smt (verit) zero_less_power_int)
  have 1: "of_int e \<le> log 2 \<bar>x\<bar>"
    using assms(1) a by (simp add: powi_eq_powr le_log_iff)
  have 2: "log 2 \<bar>x\<bar> < of_int e + 1"
    using assms(2) a by (simp add: powi_eq_powr log_less_iff)
  show ?thesis unfolding expo_def using 1 2 by (intro floor_unique) simp_all
qed

lemma fl_zero: "fl p 0 = 0"
  by (simp add: fl_def)

lemma fl_eval:
  assumes "2 powi e \<le> \<bar>x\<bar>" "\<bar>x\<bar> < 2 powi (e + 1)"
  shows "fl p x = of_int (rne (x / 2 powi (e - (int p - 1)))) * 2 powi (e - (int p - 1))"
proof -
  have "x \<noteq> 0" using assms(1) by (smt (verit) zero_less_power_int abs_zero)
  then show ?thesis using expo_unique [OF assms] by (simp add: fl_def)
qed

lemma expo_uminus: "expo (- x) = expo x"
  by (simp add: expo_def)

lemma fl_uminus: "fl p (- x) = - fl p x"
  by (simp add: fl_def expo_uminus rne_uminus)

lemma expo_double:
  assumes "x \<noteq> 0"
  shows "expo (2 * x) = expo x + 1"
proof (rule expo_unique)
  show "2 powi (expo x + 1) \<le> \<bar>2 * x\<bar>"
    using expo_bounds(1) [OF assms] by (simp add: power_int_add)
  show "\<bar>2 * x\<bar> < 2 powi (expo x + 1 + 1)"
    using expo_bounds(2) [OF assms] by (simp add: power_int_add)
qed

lemma powi_split: "(2::real) powi (a + b) = 2 powi a * 2 powi b"
  by (simp add: power_int_add)

lemma fl_double: "fl p (2 * x) = 2 * fl p x"
proof (cases "x = 0")
  case True
  then show ?thesis by (simp add: fl_zero)
next
  case False
  define t where "t = expo x - (int p - 1)"
  have e: "expo (2 * x) - (int p - 1) = t + 1"
    using expo_double [OF False] by (simp add: t_def)
  have s: "(2::real) powi (t + 1) = 2 * 2 powi t"
    by (simp add: powi_split)
  have m: "2 * x / (2 * 2 powi t) = x / 2 powi t" by simp
  have "fl p (2 * x) = of_int (rne (2 * x / 2 powi (t + 1))) * 2 powi (t + 1)"
    using False unfolding fl_def e by simp
  also have "\<dots> = of_int (rne (x / 2 powi t)) * (2 * 2 powi t)"
    unfolding s m ..
  also have "\<dots> = 2 * fl p x"
    using False unfolding fl_def t_def by simp
  finally show ?thesis .
qed

lemma fl_half: "fl p (x / 2) = fl p x / 2"
  using fl_double [of p "x / 2"] by simp

lemma of_int_pow2: "real_of_int (2 ^ n) = 2 powi (int n)"
  by simp

lemma fl_pos_bounds:
  assumes "0 < x" "1 \<le> p"
  shows "2 powi expo x \<le> fl p x" and "fl p x \<le> 2 powi (expo x + 1)"
proof -
  from assms(2) obtain n where n: "p = Suc n" by (cases p) simp_all
  define s where "s = expo x - int n"
  define m where "m = x / 2 powi s"
  have f: "fl p x = of_int (rne m) * 2 powi s"
    using assms(1) by (simp add: fl_def n m_def s_def)
  have sp: "(0::real) < 2 powi s" by simp
  have x0: "x \<noteq> 0" using assms(1) by simp
  have lo: "2 powi expo x \<le> x" and hi: "x < 2 powi (expo x + 1)"
    using expo_bounds [OF x0] assms(1) by simp_all
  have "expo x = int n + s" by (simp add: s_def)
  then have "(2::real) powi expo x = 2 powi (int n) * 2 powi s"
    by (metis powi_split)
  then have e1: "(2::real) powi expo x = of_int (2 ^ n) * 2 powi s"
    by (simp only: of_int_pow2)
  have "expo x + 1 = int (Suc n) + s" by (simp add: s_def)
  then have "(2::real) powi (expo x + 1) = 2 powi (int (Suc n)) * 2 powi s"
    by (metis powi_split)
  then have e2: "(2::real) powi (expo x + 1) = of_int (2 ^ Suc n) * 2 powi s"
    by (simp only: of_int_pow2)
  have mlo: "of_int (2 ^ n) \<le> m"
    using lo sp unfolding m_def e1 by (simp only: pos_le_divide_eq)
  have mhi: "m \<le> of_int (2 ^ Suc n)"
    using hi sp unfolding m_def e2 by (simp only: pos_divide_le_eq less_imp_le)
  have "2 ^ n \<le> rne m" using rne_mono [OF mlo] by (simp only: rne_of_int)
  then have "real_of_int (2 ^ n) \<le> of_int (rne m)" by (simp only: of_int_le_iff)
  then have "real_of_int (2 ^ n) * 2 powi s \<le> real_of_int (rne m) * 2 powi s"
    using sp by (simp only: mult_le_cancel_right_pos)
  then show "2 powi expo x \<le> fl p x" by (simp only: e1 f)
  have "rne m \<le> 2 ^ Suc n" using rne_mono [OF mhi] by (simp only: rne_of_int)
  then have "of_int (rne m) \<le> real_of_int (2 ^ Suc n)" by (simp only: of_int_le_iff)
  then have "real_of_int (rne m) * 2 powi s \<le> real_of_int (2 ^ Suc n) * 2 powi s"
    using sp by (simp only: mult_le_cancel_right_pos)
  then show "fl p x \<le> 2 powi (expo x + 1)" by (simp only: e2 f)
qed

lemma fl_nonneg:
  assumes "0 \<le> x" "1 \<le> p"
  shows "0 \<le> fl p x"
proof (cases "x = 0")
  case True
  then show ?thesis by (simp add: fl_zero)
next
  case False
  with assms have "0 < x" by simp
  from fl_pos_bounds(1) [OF this assms(2)] show ?thesis
    by (smt (verit) zero_less_power_int)
qed

lemma expo_mono:
  assumes "0 < x" "x \<le> y"
  shows "expo x \<le> expo y"
  unfolding expo_def using assms by (intro floor_mono) simp

lemma fl_mono_pos:
  assumes "0 < x" "x \<le> y" "1 \<le> p"
  shows "fl p x \<le> fl p y"
proof (cases "expo x = expo y")
  case True
  have "x / 2 powi (expo y - (int p - 1)) \<le> y / 2 powi (expo y - (int p - 1))"
    using assms(2) by (simp add: divide_right_mono)
  from rne_mono [OF this] show ?thesis
    using assms(1,2) True by (simp add: fl_def)
next
  case False
  with expo_mono [OF assms(1,2)] have "expo x + 1 \<le> expo y" by simp
  then have "(2::real) powi (expo x + 1) \<le> 2 powi expo y"
    by (intro power_int_increasing) simp_all
  moreover have "fl p x \<le> 2 powi (expo x + 1)"
    using assms by (intro fl_pos_bounds(2)) simp_all
  moreover have "2 powi expo y \<le> fl p y"
    using assms by (intro fl_pos_bounds(1)) simp_all
  ultimately show ?thesis by linarith
qed

lemma fl_mono:
  assumes "x \<le> y" "1 \<le> p"
  shows "fl p x \<le> fl p y"
proof -
  consider "0 < x" | "x \<le> 0" "0 \<le> y" | "y < 0" by linarith
  then show ?thesis
  proof cases
    case 1
    then show ?thesis using assms by (rule fl_mono_pos)
  next
    case 2
    have "0 \<le> fl p (- x)" using 2(1) assms(2) by (intro fl_nonneg) simp_all
    then have "fl p x \<le> 0" by (simp add: fl_uminus)
    moreover have "0 \<le> fl p y" using 2(2) assms(2) by (rule fl_nonneg)
    ultimately show ?thesis by linarith
  next
    case 3
    have "fl p (- y) \<le> fl p (- x)"
      using 3 assms by (intro fl_mono_pos) simp_all
    then show ?thesis by (simp add: fl_uminus)
  qed
qed

lemma fl_pow2:
  assumes "1 \<le> p"
  shows "fl p (2 powi k) = 2 powi k"
proof -
  from assms obtain n where n: "p = Suc n" by (cases p) simp_all
  define t where "t = k - int n"
  have "k = int n + t" by (simp add: t_def)
  then have "(2::real) powi k = 2 powi (int n) * 2 powi t"
    by (metis powi_split)
  then have k: "(2::real) powi k = of_int (2 ^ n) * 2 powi t"
    by (simp only: of_int_pow2)
  have "(2::real) powi k / 2 powi t = of_int (2 ^ n)"
    unfolding k by simp
  then have r: "rne (2 powi k / 2 powi t) = 2 ^ n"
    by (simp only: rne_of_int)
  have t: "k - (int p - 1) = t" by (simp add: t_def n)
  have "fl p (2 powi k) =
      of_int (rne (2 powi k / 2 powi (k - (int p - 1)))) * 2 powi (k - (int p - 1))"
    by (rule fl_eval) (simp_all add: powi_split)
  also have "\<dots> = of_int (rne (2 powi k / 2 powi t)) * 2 powi t"
    by (simp only: t)
  also have "\<dots> = of_int (2 ^ n) * 2 powi t"
    by (simp only: r)
  also have "\<dots> = 2 powi k"
    by (simp only: k)
  finally show ?thesis .
qed

lemma fl_idem_pos:
  assumes "0 < x" "1 \<le> p"
  shows "fl p (fl p x) = fl p x"
proof -
  define s where "s = expo x - (int p - 1)"
  define k where "k = rne (x / 2 powi s)"
  have x0: "x \<noteq> 0" using assms(1) by simp
  have y: "fl p x = of_int k * 2 powi s" using x0 by (simp add: fl_def k_def s_def)
  have lo: "2 powi expo x \<le> fl p x" and hi: "fl p x \<le> 2 powi (expo x + 1)"
    using fl_pos_bounds [OF assms] by simp_all
  show ?thesis
  proof (cases "fl p x = 2 powi (expo x + 1)")
    case True
    then show ?thesis using fl_pow2 [OF assms(2)] by simp
  next
    case False
    with hi have lt: "fl p x < 2 powi (expo x + 1)" by simp
    have pos: "0 < fl p x" using lo by (smt (verit) zero_less_power_int)
    have "fl p (fl p x) =
        of_int (rne (fl p x / 2 powi (expo x - (int p - 1)))) * 2 powi (expo x - (int p - 1))"
      using lo lt pos by (intro fl_eval) simp_all
    also have "fl p x / 2 powi (expo x - (int p - 1)) = of_int k"
      by (simp add: y s_def)
    also have "of_int (rne (of_int k)) * 2 powi (expo x - (int p - 1)) = fl p x"
      by (simp add: rne_of_int y s_def)
    finally show ?thesis .
  qed
qed

lemma fl_idem:
  assumes "1 \<le> p"
  shows "fl p (fl p x) = fl p x"
proof -
  consider "0 < x" | "x = 0" | "x < 0" by linarith
  then show ?thesis
  proof cases
    case 1
    then show ?thesis using assms by (rule fl_idem_pos)
  next
    case 2
    then show ?thesis by (simp add: fl_zero)
  next
    case 3
    then have "fl p (fl p (- x)) = fl p (- x)" using assms by (intro fl_idem_pos) simp_all
    then show ?thesis by (simp add: fl_uminus)
  qed
qed

section \<open>The rescaling layer\<close>

lemma map2_add_commute: "map2 (+) (xs :: real list) ys = map2 (+) ys xs"
  by (induction xs arbitrary: ys) (auto split: list.splits simp: zip_Cons1)













text \<open>
  C3. The rescaling layer of the code, with \<open>action_range = action_high - action_low\<close>
  fixed by the constructor, is the same function of the raw output as the formula
  of the specification.
\<close>

theorem actions_layer_eq_spec_scaled:
  "actions_layer (Actor_init ssize asize low high) x = spec_scaled low high x"
  unfolding actions_layer_def spec_scaled_def Actor_init_def
  by (simp add: map2_add_commute)

text \<open>
  C4. The loss handed to the optimizer is the mean of \<open>- g * a\<close> over the batch,
  which is the negated mean of the products of the action gradients \<open>g\<close> and the
  rescaled outputs \<open>a\<close> of the Actor (NaN, here \<open>None\<close>, for a batch with no element).
\<close>

lemma concat_tmul_tneg:
  "concat (tmul (tneg g) a) = map uminus (concat (tmul g a))"
proof (induction g arbitrary: a)
  case Nil
  then show ?case by (simp add: tmul_def tneg_def)
next
  case (Cons r g)
  show ?case
  proof (cases a)
    case Nil
    then show ?thesis by (simp add: tmul_def tneg_def)
  next
    case (Cons s a')
    have row: "map2 (*) (map uminus r) s = map uminus (map2 (*) r s)"
      by (induction r arbitrary: s) (auto split: list.splits simp: zip_Cons1)
    from Cons.IH [of a'] show ?thesis
      using Cons row by (simp add: tmul_def tneg_def)
  qed
qed

lemma sum_list_uminus: "sum_list (map uminus (xs :: real list)) = - sum_list xs"
  by (induction xs) auto

theorem loss_negated_mean_product:
  "loss A g raw = map_option uminus (K_mean (tmul g (map (actions_layer A) raw)))"
  by (simp add: loss_def K_mean_def np_mean_def concat_tmul_tneg sum_list_uminus)

section \<open>Preprocessing of the state\<close>

lemma float64_1_2: "float64 1.2 = 5404319552844595 / 4503599627370496"
  unfolding float64_def by (subst fl_eval [where e = 0]) (simp_all add: rne_def Let_def)

lemma float64_1_8: "float64 1.8 = 8106479329266893 / 4503599627370496"
  unfolding float64_def by (subst fl_eval [where e = 0]) (simp_all add: rne_def Let_def)

lemma float64_0_6: "float64 0.6 = 5404319552844595 / 9007199254740992"
  unfolding float64_def by (subst fl_eval [where e = "- 1"]) (simp_all add: rne_def Let_def)

lemma float64_0_07: "float64 0.07 = 1261007895663739 / 18014398509481984"
  unfolding float64_def by (subst fl_eval [where e = "- 4"]) (simp_all add: rne_def Let_def)

lemma float64_mono: "x \<le> y \<Longrightarrow> float64 x \<le> float64 y"
  unfolding float64_def by (rule fl_mono) simp_all

lemma float64_idem: "float64 (float64 x) = float64 x"
  unfolding float64_def by (rule fl_idem) simp

lemma float64_double: "float64 (x * 2) = float64 x * 2"
  unfolding float64_def using fl_double [of 53 x] by (simp add: mult.commute)

lemma float64_zero: "float64 0 = 0"
  by (simp add: float64_def fl_zero)

lemma float64_one: "float64 1 = 1"
  unfolding float64_def using fl_pow2 [of 53 0] by simp

lemma float64_minus_one: "float64 (- 1) = - 1"
  unfolding float64_def using fl_pow2 [of 53 0] by (simp add: fl_uminus)

lemma float64_nonneg: "0 \<le> x \<Longrightarrow> 0 \<le> float64 x"
  using float64_mono [of 0 x] by (simp add: float64_zero)

lemma float64_1_2_n: "float64 (6 / 5) = 5404319552844595 / 4503599627370496"
  using float64_1_2 by simp

lemma float64_1_8_n: "float64 (9 / 5) = 8106479329266893 / 4503599627370496"
  using float64_1_8 by simp

lemma float64_0_6_n: "float64 (3 / 5) = 5404319552844595 / 9007199254740992"
  using float64_0_6 by simp

lemma float64_0_07_n: "float64 (7 / 100) = 1261007895663739 / 18014398509481984"
  using float64_0_07 by simp

lemma float64_0_14_n: "float64 (7 / 50) = 1261007895663739 / 9007199254740992"
  using float64_double [of "7 / 100"] by (simp add: float64_0_07_n)

lemma float64_pos_sum: "float64 (5404319552844595 / 9007199254740992 + 5404319552844595 / 4503599627370496) =
    2026619832316723 / 1125899906842624"
  unfolding float64_def by (subst fl_eval [where e = 0]) (simp_all add: rne_def Let_def)

lemma float64_pos_quot: "float64 ((2026619832316723 / 1125899906842624) / (8106479329266893 / 4503599627370496)) =
    9007199254740991 / 9007199254740992"
  unfolding float64_def by (subst fl_eval [where e = "- 1"]) (simp_all add: rne_def Let_def)

lemma float64_pos_quot_idem: "float64 (9007199254740991 / 9007199254740992) = 9007199254740991 / 9007199254740992"
  unfolding float64_def by (subst fl_eval [where e = "- 1"]) (simp_all add: rne_def Let_def)

lemma float64_pos_diff: "float64 (9007199254740991 / 9007199254740992 * 2 - 1) =
    4503599627370495 / 4503599627370496"
  unfolding float64_def by (subst fl_eval [where e = "- 1"]) (simp_all add: rne_def Let_def)


lemma preprocess_state_f64_pair:
  "preprocess_state_f64 [p, v] = Inr [pos_scaled p, vel_scaled v]"
  by (simp add: preprocess_state_f64_def pos_scaled_def vel_scaled_def)

lemma pos_scaled_mono: "p \<le> q \<Longrightarrow> pos_scaled p \<le> pos_scaled q"
  unfolding pos_scaled_def
  by (intro float64_mono diff_right_mono mult_right_mono divide_right_mono add_right_mono)
     (simp_all add: float64_1_8_n)

lemma vel_scaled_mono: "v \<le> w \<Longrightarrow> vel_scaled v \<le> vel_scaled w"
  unfolding vel_scaled_def
  by (intro float64_mono diff_right_mono mult_right_mono divide_right_mono add_right_mono)
     (simp_all add: float64_0_14_n)

lemma pos_scaled_low: "pos_scaled (- float64 1.2) = - 1"
  by (simp add: pos_scaled_def float64_zero float64_minus_one)

lemma pos_scaled_high: "pos_scaled (float64 0.6) = 4503599627370495 / 4503599627370496"
proof -
  have "float64 0.6 + float64 1.2 =
      5404319552844595 / 9007199254740992 + 5404319552844595 / 4503599627370496"
    by (simp only: float64_0_6 float64_1_2)
  then have s1: "float64 (float64 0.6 + float64 1.2) = 2026619832316723 / 1125899906842624"
    by (simp only: float64_pos_sum)
  have s2: "float64 (float64 (float64 0.6 + float64 1.2) / float64 1.8) =
      9007199254740991 / 9007199254740992"
    by (simp only: s1 float64_1_8 float64_pos_quot)
  have s3: "float64 (float64 (float64 (float64 0.6 + float64 1.2) / float64 1.8) * 2) =
      9007199254740991 / 9007199254740992 * 2"
    by (simp only: s2 float64_double float64_pos_quot_idem)
  show ?thesis
    unfolding pos_scaled_def by (simp only: s3 float64_pos_diff)
qed

lemma vel_scaled_low: "vel_scaled (- float64 0.07) = - 1"
  by (simp add: vel_scaled_def float64_zero float64_minus_one)

lemma float64_vel_sum: "float64 (1261007895663739 / 18014398509481984 + 1261007895663739 / 18014398509481984) =
    1261007895663739 / 9007199254740992"
  unfolding float64_def by (subst fl_eval [where e = "- 3"]) (simp_all add: rne_def Let_def)

lemma vel_scaled_high: "vel_scaled (float64 0.07) = 1"
proof -
  have "float64 0.07 + float64 0.07 =
      1261007895663739 / 18014398509481984 + 1261007895663739 / 18014398509481984"
    by (simp only: float64_0_07)
  then have s1: "float64 (float64 0.07 + float64 0.07) = 1261007895663739 / 9007199254740992"
    by (simp only: float64_vel_sum)
  have c: "float64 0.14 = 1261007895663739 / 9007199254740992"
    using float64_0_14_n by simp
  have "(1261007895663739 / 9007199254740992 :: real) / (1261007895663739 / 9007199254740992) = 1"
    by simp
  then have s2: "float64 (float64 (float64 0.07 + float64 0.07) / float64 0.14) = 1"
    by (simp only: s1 c float64_one)
  have "float64 (1 * 2) = 1 * 2" by (simp only: float64_double float64_one)
  then have s3: "float64 (float64 (float64 (float64 0.07 + float64 0.07) / float64 0.14) * 2) = 2"
    by (simp only: s2)
  have "(2::real) - 1 = 1" by simp
  then show ?thesis
    unfolding vel_scaled_def by (simp only: s3 float64_one)
qed

lemma preprocess_state_f64_raises:
  "isl (preprocess_state_f64 st) = isl (preprocess_state st)"
  by (simp add: preprocess_state_f64_def preprocess_state_def)

text \<open>
  C8, as amended. A raw state of position between the floats \<open>-1.2\<close> and \<open>0.6\<close> and
  velocity between the floats \<open>-0.07\<close> and \<open>0.07\<close> is mapped to two components in
  \<open>[-1, 1]\<close>; the position \<open>-1.2\<close> is mapped to \<open>-1\<close> and the velocities \<open>-0.07\<close> and
  \<open>0.07\<close> to \<open>-1\<close> and \<open>1\<close> exactly, and the position \<open>0.6\<close> to \<open>1 - 2\<^sup>-\<^sup>5\<^sup>2\<close>, the
  float64 number next below 1.
\<close>

theorem preprocess_state_f64_range:
  assumes "- float64 1.2 \<le> p" "p \<le> float64 0.6"
    and "- float64 0.07 \<le> v" "v \<le> float64 0.07"
  shows "\<exists>a b. preprocess_state_f64 [p, v] = Inr [a, b] \<and>
           - 1 \<le> a \<and> a \<le> 1 \<and> - 1 \<le> b \<and> b \<le> 1 \<and>
           preprocess_state_f64 [- float64 1.2, v] = Inr [- 1, b] \<and>
           preprocess_state_f64 [float64 0.6, v] = Inr [1 - 1 / 2 ^ 52, b] \<and>
           preprocess_state_f64 [p, - float64 0.07] = Inr [a, - 1] \<and>
           preprocess_state_f64 [p, float64 0.07] = Inr [a, 1]"
proof (intro exI conjI)
  note p1 = assms(1) and p2 = assms(2) and v1 = assms(3) and v2 = assms(4)
  show "preprocess_state_f64 [p, v] = Inr [pos_scaled p, vel_scaled v]"
    by (rule preprocess_state_f64_pair)
  show "- 1 \<le> pos_scaled p"
    using pos_scaled_mono [OF p1] by (simp only: pos_scaled_low)
  have "pos_scaled p \<le> 4503599627370495 / 4503599627370496"
    using pos_scaled_mono [OF p2] by (simp only: pos_scaled_high)
  then show "pos_scaled p \<le> 1" by simp
  show "- 1 \<le> vel_scaled v"
    using vel_scaled_mono [OF v1] by (simp only: vel_scaled_low)
  show "vel_scaled v \<le> 1"
    using vel_scaled_mono [OF v2] by (simp only: vel_scaled_high)
  show "preprocess_state_f64 [- float64 1.2, v] = Inr [- 1, vel_scaled v]"
    by (simp only: preprocess_state_f64_pair pos_scaled_low)
  have "(4503599627370495 / 4503599627370496 :: real) = 1 - 1 / 2 ^ 52" by simp
  then show "preprocess_state_f64 [float64 0.6, v] = Inr [1 - 1 / 2 ^ 52, vel_scaled v]"
    by (simp only: preprocess_state_f64_pair pos_scaled_high)
  show "preprocess_state_f64 [p, - float64 0.07] = Inr [pos_scaled p, - 1]"
    by (simp only: preprocess_state_f64_pair vel_scaled_low)
  show "preprocess_state_f64 [p, float64 0.07] = Inr [pos_scaled p, 1]"
    by (simp only: preprocess_state_f64_pair vel_scaled_high)
qed

theorem preprocess_state_f64_range_witness:
  "- float64 1.2 \<le> float64 0.6 \<and> float64 0.6 \<le> float64 0.6 \<and>
   - float64 0.07 \<le> float64 0.07 \<and> float64 0.07 \<le> float64 0.07 \<and>
   preprocess_state_f64 [float64 0.6, float64 0.07] = Inr [1 - 1 / 2 ^ 52, 1]"
proof -
  have h: "- float64 1.2 \<le> float64 0.6" "- float64 0.07 \<le> float64 0.07"
    by (simp_all add: float64_0_6_n float64_1_2_n float64_0_07_n)
  from preprocess_state_f64_range [OF h(1) order_refl h(2) order_refl]
  obtain a b where
    "preprocess_state_f64 [float64 0.6, float64 0.07] = Inr [a, b]"
    "preprocess_state_f64 [float64 0.6, float64 0.07] = Inr [1 - 1 / 2 ^ 52, b]"
    "preprocess_state_f64 [float64 0.6, float64 0.07] = Inr [a, 1]"
    by blast
  then have "preprocess_state_f64 [float64 0.6, float64 0.07] = Inr [1 - 1 / 2 ^ 52, 1]"
    by simp
  then show ?thesis using h by simp
qed


lemma float64_half: "float64 (1 / 2) = 1 / 2"
  unfolding float64_def using fl_pow2 [of 53 "- 1"] by simp

lemma vel_scaled_zero: "vel_scaled 0 = 0"
proof -
  have "float64 (0 + float64 0.07) = float64 0.07" by (simp add: float64_idem)
  moreover have "float64 0.07 / float64 0.14 = 1 / 2" by (simp add: float64_0_07_n float64_0_14_n)
  ultimately have s2: "float64 (float64 (0 + float64 0.07) / float64 0.14) = 1 / 2"
    by (simp only: float64_half)
  have s3: "float64 (float64 (float64 (0 + float64 0.07) / float64 0.14) * 2) = 1"
    by (simp only: s2 float64_double float64_half)
  show ?thesis unfolding vel_scaled_def by (simp only: s3) (simp add: float64_zero)
qed


text \<open>
  C8, as stated, fails at the upper end of the positions: \<open>0.6 + 1.2\<close> is rounded
  to \<open>1.7999999999999998\<close>, below the float \<open>1.8\<close>, and the state of position \<open>0.6\<close>
  and velocity 0 is mapped to the position \<open>0.9999999999999998\<close>, not to 1.
\<close>

theorem preprocess_state_f64_upper_end:
  "preprocess_state_f64 [float64 0.6, 0] =
     Inr [4503599627370495 / 4503599627370496, 0] \<and>
   (4503599627370495 / 4503599627370496 :: real) < 1"
  by (simp only: preprocess_state_f64_pair pos_scaled_high vel_scaled_zero) simp


section \<open>One epoch\<close>

lemma step_rewards_append: "step_rewards (xs @ ys) = step_rewards xs @ step_rewards ys"
  by (induction xs rule: step_rewards.induct) simp_all

lemma env_step_actions_append:
  "env_step_actions (xs @ ys) = env_step_actions xs @ env_step_actions ys"
  by (induction xs rule: env_step_actions.induct) simp_all

lemma agent_step_actions_append:
  "agent_step_actions (xs @ ys) = agent_step_actions xs @ agent_step_actions ys"
  by (induction xs rule: agent_step_actions.induct) simp_all

lemma act_results_append: "act_results (xs @ ys) = act_results xs @ act_results ys"
  by (induction xs rule: act_results.induct) simp_all

lemma agent_calls_append: "agent_calls (xs @ ys) = agent_calls xs @ agent_calls ys"
  by (simp add: agent_calls_def)

lemma loop_body_Returned:
  assumes "loop_body E render training v (w, tr) = Returned v' s'"
  shows "\<exists>n p ns r. snd s' = tr @ [Act (state v) n p, EnvStep (chosen training (n, p)) ns r (is_done v')]
            @ (if training then [AgentStep (chosen training (n, p)) r (state v') (is_done v')] else [])
            @ (if render then [EnvRender] else [])
            @ (if is_done v' \<and> render then [EnvClose, NewEnv] else [])
          \<and> preprocess_state ns = Inr (state v')
          \<and> actions_list v' = actions_list v @ [p]
          \<and> total_reward v' = total_reward v + r
          \<and> steps v' = steps v + 1"
  using assms
  by (auto simp: loop_body_def chosen_def Let_def split: prod.splits sum.splits if_splits)

lemma loop_body_Raised:
  assumes "loop_body E render training v (w, tr) = Raised e s'"
  shows "\<exists>n p ns r d. snd s' = tr @ [Act (state v) n p, EnvStep (chosen training (n, p)) ns r d]
          \<and> preprocess_state ns = Inl e"
  using assms
  by (auto simp: loop_body_def chosen_def Let_def split: prod.splits sum.splits if_splits)


lemma run_epoch_loop_Returned:
  "run_epoch_loop fuel E render training v (w, tr) = Returned v' s' \<Longrightarrow>
   is_done v' \<and> (\<exists>evs. snd s' = tr @ evs \<and>
      total_reward v' = total_reward v + sum_list (step_rewards evs) \<and>
      steps v' = steps v + length (step_rewards evs) \<and>
      actions_list v' = actions_list v @ map snd (act_results evs) \<and>
      env_step_actions evs = map (chosen training) (act_results evs) \<and>
      agent_step_actions evs = (if training then env_step_actions evs else []) \<and>
      alternates training (agent_calls evs) \<and>
      (\<forall>st. EnvReset st \<notin> set evs) \<and>
      (\<not> is_done v \<longrightarrow> step_rewards evs \<noteq> []))"
proof (induction fuel arbitrary: v w tr)
  case 0
  then show ?case by (auto split: if_splits simp: agent_calls_def)
next
  case (Suc fuel)
  show ?case
  proof (cases "is_done v")
    case True
    with Suc.prems show ?thesis by (auto simp: agent_calls_def)
  next
    case False
    with Suc.prems obtain v1 w1 tr1 where
      body: "loop_body E render training v (w, tr) = Returned v1 (w1, tr1)" and
      rest: "run_epoch_loop fuel E render training v1 (w1, tr1) = Returned v' s'"
      by (auto split: outcome.splits)
    from loop_body_Returned [OF body] obtain n p ns r where
      tr1: "tr1 = tr @ [Act (state v) n p, EnvStep (chosen training (n, p)) ns r (is_done v1)]
            @ (if training then [AgentStep (chosen training (n, p)) r (state v1) (is_done v1)] else [])
            @ (if render then [EnvRender] else [])
            @ (if is_done v1 \<and> render then [EnvClose, NewEnv] else [])" and
      v1: "actions_list v1 = actions_list v @ [p]" "total_reward v1 = total_reward v + r"
          "steps v1 = steps v + 1"
      by auto
    from Suc.IH [OF rest] obtain evs where
      d: "is_done v'" and
      evs: "snd s' = tr1 @ evs"
        "total_reward v' = total_reward v1 + sum_list (step_rewards evs)"
        "steps v' = steps v1 + length (step_rewards evs)"
        "actions_list v' = actions_list v1 @ map snd (act_results evs)"
        "env_step_actions evs = map (chosen training) (act_results evs)"
        "agent_step_actions evs = (if training then env_step_actions evs else [])"
        "alternates training (agent_calls evs)"
        "\<forall>st. EnvReset st \<notin> set evs"
      by auto
    define blk where "blk = [Act (state v) n p, EnvStep (chosen training (n, p)) ns r (is_done v1)]
            @ (if training then [AgentStep (chosen training (n, p)) r (state v1) (is_done v1)] else [])
            @ (if render then [EnvRender] else [])
            @ (if is_done v1 \<and> render then [EnvClose, NewEnv] else [])"
    have b1: "step_rewards blk = [r]" by (simp add: blk_def)
    have b2: "act_results blk = [(n, p)]" by (simp add: blk_def)
    have b3: "env_step_actions blk = [chosen training (n, p)]" by (simp add: blk_def)
    have b4: "agent_step_actions blk = (if training then [chosen training (n, p)] else [])"
      by (simp add: blk_def)
    have b5: "alternates training (agent_calls (blk @ evs)) = alternates training (agent_calls evs)"
      by (simp add: blk_def agent_calls_def)
    have "snd s' = tr @ (blk @ evs)" using evs(1) tr1 by (simp add: blk_def)
    moreover have "total_reward v' = total_reward v + sum_list (step_rewards (blk @ evs))"
      using evs(2) v1 by (simp add: step_rewards_append b1)
    moreover have "steps v' = steps v + length (step_rewards (blk @ evs))"
      using evs(3) v1 by (simp add: step_rewards_append b1)
    moreover have "actions_list v' = actions_list v @ map snd (act_results (blk @ evs))"
      using evs(4) v1 by (simp add: act_results_append b2)
    moreover have "env_step_actions (blk @ evs) = map (chosen training) (act_results (blk @ evs))"
      using evs(5) by (simp add: act_results_append env_step_actions_append b2 b3)
    moreover have "agent_step_actions (blk @ evs) = (if training then env_step_actions (blk @ evs) else [])"
      using evs(6) by (simp add: agent_step_actions_append env_step_actions_append b3 b4)
    moreover have "alternates training (agent_calls (blk @ evs))"
      using evs(7) b5 by simp
    moreover have "\<forall>st. EnvReset st \<notin> set (blk @ evs)"
      using evs(8) by (simp add: blk_def)
    moreover have "step_rewards (blk @ evs) \<noteq> []"
      by (simp add: step_rewards_append b1)
    ultimately show ?thesis using d by blast
  qed
qed

lemma episodes_from_no_reset:
  "\<forall>st. EnvReset st \<notin> set evs \<Longrightarrow>
   episodes_from (Some (t, n)) evs =
     [(t + sum_list (step_rewards evs), n + length (step_rewards evs))]"
proof (induction evs arbitrary: t n)
  case Nil
  then show ?case by simp
next
  case (Cons e evs)
  then show ?case by (cases e) (auto simp: add.assoc)
qed

lemma episodes_from_append_reset:
  "episodes_from cur (xs @ EnvReset st # ys) =
     episodes_from cur xs @ episodes_from (Some (0, 0)) ys"
proof (induction xs arbitrary: cur)
  case Nil
  then show ?case by simp
next
  case (Cons e xs)
  then show ?case by (cases e) simp_all
qed


lemma run_epoch_Returned:
  assumes "run_epoch fuel E render training (w, tr) = Returned (tot, d, am, asd, n) s'"
  shows "\<exists>raw st evs. snd s' = tr @ EnvReset raw # ResetEpisode st # evs \<and>
      d \<and> tot = sum_list (step_rewards evs) \<and> n = length (step_rewards evs) \<and> 1 \<le> n \<and>
      am = np_mean (concat (map snd (act_results evs))) \<and>
      asd = np_std (concat (map snd (act_results evs))) \<and>
      env_step_actions evs = map (chosen training) (act_results evs) \<and>
      agent_step_actions evs = (if training then env_step_actions evs else []) \<and>
      alternates training (agent_calls evs) \<and>
      (\<forall>st. EnvReset st \<notin> set evs)"
proof -
  obtain raw w1 where r: "env_reset E w = (raw, w1)" by (cases "env_reset E w")
  from assms r obtain st where st: "preprocess_state raw = Inr st"
    by (cases "preprocess_state raw") (auto simp: run_epoch_def Let_def)
  define v0 where "v0 = \<lparr>state = st, actions_list = [], total_reward = 0, steps = 0, is_done = False\<rparr>"
  define tr2 where "tr2 = tr @ [EnvReset raw, ResetEpisode st]"
  from assms r st obtain v' where
    loop: "run_epoch_loop fuel E render training v0 (agent_reset_episode E st w1, tr2) = Returned v' s'"
    and res: "tot = total_reward v'" "d = is_done v'" "n = steps v'"
      "am = np_mean (concat (actions_list v'))" "asd = np_std (concat (actions_list v'))"
    by (auto simp: run_epoch_def Let_def v0_def tr2_def split: outcome.splits)
  from run_epoch_loop_Returned [OF loop] obtain evs where
    d: "is_done v'" and
    evs: "snd s' = tr2 @ evs"
      "total_reward v' = total_reward v0 + sum_list (step_rewards evs)"
      "steps v' = steps v0 + length (step_rewards evs)"
      "actions_list v' = actions_list v0 @ map snd (act_results evs)"
      "env_step_actions evs = map (chosen training) (act_results evs)"
      "agent_step_actions evs = (if training then env_step_actions evs else [])"
      "alternates training (agent_calls evs)"
      "\<forall>st. EnvReset st \<notin> set evs"
      "\<not> is_done v0 \<longrightarrow> step_rewards evs \<noteq> []"
    by blast
  have ne: "step_rewards evs \<noteq> []" using evs(9) by (simp add: v0_def)
  have "snd s' = tr @ EnvReset raw # ResetEpisode st # evs"
    using evs(1) by (simp add: tr2_def)
  moreover have "1 \<le> n" using res(3) evs(3) ne by (cases "step_rewards evs") (simp_all add: v0_def)
  moreover have "tot = sum_list (step_rewards evs)" "n = length (step_rewards evs)"
    using res evs(2,3) by (simp_all add: v0_def)
  moreover have "am = np_mean (concat (map snd (act_results evs)))"
    "asd = np_std (concat (map snd (act_results evs)))"
    using res evs(4) by (simp_all add: v0_def)
  ultimately show ?thesis using d res(2) evs(5-8) by blast
qed


lemma demo_train_epoch:
  "run_epoch (Suc (Suc 0)) demo False True ((0, 0), []) =
     Returned (50, True, Some (1 / 2), Some 0, 2) ((1, 2), demo_train_trace)"
  by (simp add: run_epoch_def loop_body_def demo_def preprocess_state_def np_mean_def
      np_std_def Let_def demo_train_trace_def)

lemma demo_test_epoch:
  "run_epoch (Suc (Suc 0)) demo False False ((1, 2), []) =
     Returned (95, True, Some (1 / 2), Some 0, 2) ((2, 2), demo_test_trace)"
  by (simp add: run_epoch_def loop_body_def demo_def preprocess_state_def np_mean_def
      np_std_def Let_def demo_test_trace_def)

text \<open>
  C5. In an epoch that \<open>run_epoch\<close> runs to its end, the actions passed to
  \<open>env.step\<close> are, call for call, the noisy actions that \<open>agent.act\<close> returned when
  \<open>training\<close> is true and the pure ones when it is false; the actions passed to
  \<open>agent.step\<close> are the same noisy actions when \<open>training\<close> is true (there is no such
  call when it is false); and the two action statistics returned are those of the
  pure actions.
\<close>

theorem run_epoch_actions:
  assumes "run_epoch fuel E render training (w, tr) =
             Returned (tot, d, action_mean, action_std, n) s'"
  shows "env_step_actions (drop (length tr) (snd s')) =
           (if training then map fst (act_results (drop (length tr) (snd s')))
            else map snd (act_results (drop (length tr) (snd s')))) \<and>
         agent_step_actions (drop (length tr) (snd s')) =
           (if training then map fst (act_results (drop (length tr) (snd s'))) else []) \<and>
         action_mean = np_mean (concat (map snd (act_results (drop (length tr) (snd s'))))) \<and>
         action_std = np_std (concat (map snd (act_results (drop (length tr) (snd s')))))"
proof -
  from run_epoch_Returned [OF assms] obtain raw st evs where
    tr': "snd s' = tr @ EnvReset raw # ResetEpisode st # evs" and
    m: "action_mean = np_mean (concat (map snd (act_results evs)))"
       "action_std = np_std (concat (map snd (act_results evs)))" and
    a: "env_step_actions evs = map (chosen training) (act_results evs)"
       "agent_step_actions evs = (if training then env_step_actions evs else [])"
    by blast
  have ch: "map (chosen training) (act_results evs) =
      (if training then map fst (act_results evs) else map snd (act_results evs))"
    by (simp add: chosen_def)
  show ?thesis using m a by (simp add: tr' ch)
qed

theorem run_epoch_actions_witness:
  "run_epoch (Suc (Suc 0)) demo False False ((1, 2), []) =
     Returned (95, True, Some (1 / 2), Some 0, 2) ((2, 2), demo_test_trace) \<and>
   act_results demo_test_trace = [([1], [0.5]), ([1], [0.5])] \<and>
   env_step_actions demo_test_trace = [[0.5], [0.5]] \<and>
   agent_step_actions demo_test_trace = [] \<and>
   np_mean (concat [[0.5], [0.5]]) = Some (1 / 2)"
  using run_epoch_actions [OF demo_test_epoch] demo_test_epoch
  by (simp add: demo_test_trace_def)



text \<open>
  C9. When \<open>run_epoch\<close> returns, the flag \<open>done\<close> it returns is true, the total
  reward it returns is the sum of the rewards that the calls of \<open>env.step\<close> of this
  episode returned, and the number of steps it returns is the number of these
  calls, which is at least 1.
\<close>

theorem run_epoch_totals:
  assumes "run_epoch fuel E render training (w, tr) =
             Returned (tot, d, action_mean, action_std, n) s'"
  shows "d = True \<and>
         tot = sum_list (step_rewards (drop (length tr) (snd s'))) \<and>
         n = length (step_rewards (drop (length tr) (snd s'))) \<and>
         1 \<le> n"
proof -
  from run_epoch_Returned [OF assms] obtain raw st evs where
    "snd s' = tr @ EnvReset raw # ResetEpisode st # evs"
    "d" "tot = sum_list (step_rewards evs)" "n = length (step_rewards evs)" "1 \<le> n"
    by blast
  then show ?thesis by simp
qed

theorem run_epoch_totals_witness:
  "run_epoch (Suc (Suc 0)) demo False True ((0, 0), []) =
     Returned (50, True, Some (1 / 2), Some 0, 2) ((1, 2), demo_train_trace) \<and>
   step_rewards demo_train_trace = [25, 25] \<and>
   sum_list (step_rewards demo_train_trace) = 50 \<and>
   length (step_rewards demo_train_trace) = 2"
  using run_epoch_totals [OF demo_train_epoch] demo_train_epoch
  by (simp add: demo_train_trace_def)

section \<open>The heatmaps\<close>

lemma predict_Q_list_frame:
  "\<exists>evs. snd (snd (predict_Q_list E st acts Q_list s)) = snd s @ evs \<and>
      list_all is_predict_or_plot evs \<and>
      (predict_read_only E \<longrightarrow> fst (snd (predict_Q_list E st acts Q_list s)) = fst s)"
proof (induction acts arbitrary: Q_list s)
  case Nil
  then show ?case by simp
next
  case (Cons a acts)
  obtain q w1 where p: "critic_predict E st a (fst s) = (q, w1)"
    by (cases "critic_predict E st a (fst s)")
  from Cons.IH [of "Q_list @ [q]" "(w1, snd s @ [CriticPredict st a q])"] obtain evs where
    evs: "snd (snd (predict_Q_list E st acts (Q_list @ [q]) (w1, snd s @ [CriticPredict st a q]))) =
            (snd s @ [CriticPredict st a q]) @ evs"
      "list_all is_predict_or_plot evs"
      "predict_read_only E \<longrightarrow>
         fst (snd (predict_Q_list E st acts (Q_list @ [q]) (w1, snd s @ [CriticPredict st a q]))) = w1"
    by auto
  have w1: "predict_read_only E \<longrightarrow> w1 = fst s"
    using p by (auto simp: predict_read_only_def dest: arg_cong [where f = snd])
  have "snd (snd (predict_Q_list E st (a # acts) Q_list s)) = snd s @ (CriticPredict st a q # evs)"
    using evs(1) p by simp
  moreover have "list_all is_predict_or_plot (CriticPredict st a q # evs)"
    using evs(2) by simp
  moreover have "predict_read_only E \<longrightarrow> fst (snd (predict_Q_list E st (a # acts) Q_list s)) = fst s"
    using evs(3) w1 p by simp
  ultimately show ?case by blast
qed

lemma plot_cell_frame:
  "\<exists>evs. trace_of (plot_cell E pr ar i j M s) = snd s @ evs \<and>
      list_all is_predict_or_plot evs \<and>
      (predict_read_only E \<longrightarrow> world_of (plot_cell E pr ar i j M s) = fst s)"
proof -
  define st where "st = [pr ! j, pr ! i]"
  obtain Q_list s1 where q: "predict_Q_list E st ar [] s = (Q_list, s1)"
    by (cases "predict_Q_list E st ar [] s")
  from predict_Q_list_frame [of E st ar "[]" s] q obtain evs where
    evs: "snd s1 = snd s @ evs" "list_all is_predict_or_plot evs"
      "predict_read_only E \<longrightarrow> fst s1 = fst s"
    by auto
  obtain a w2 where ap: "actor_predict E st (fst s1) = (a, w2)"
    by (cases "actor_predict E st (fst s1)")
  have w2: "predict_read_only E \<longrightarrow> w2 = fst s1"
    using ap by (auto simp: predict_read_only_def dest: arg_cong [where f = snd])
  show ?thesis
  proof (cases "\<exists>mx sd k. np_max Q_list = Some mx \<and> np_std Q_list = Some sd \<and> np_argmax Q_list = Some k")
    case True
    then obtain mx sd k where
      "np_max Q_list = Some mx" "np_std Q_list = Some sd" "np_argmax Q_list = Some k"
      by blast
    then have t: "trace_of (plot_cell E pr ar i j M s) = snd s1 @ [ActorPredict st a]"
      and w: "world_of (plot_cell E pr ar i j M s) = w2"
      using q ap by (simp_all add: plot_cell_def Let_def st_def [symmetric])
    have "trace_of (plot_cell E pr ar i j M s) = snd s @ (evs @ [ActorPredict st a])"
      using t evs(1) by simp
    moreover have "list_all is_predict_or_plot (evs @ [ActorPredict st a])"
      using evs(2) by simp
    moreover have "predict_read_only E \<longrightarrow> world_of (plot_cell E pr ar i j M s) = fst s"
      using w w2 evs(3) by simp
    ultimately show ?thesis by blast
  next
    case False
    then have "plot_cell E pr ar i j M s = Raised ValueError s1"
      using q by (auto simp: plot_cell_def Let_def st_def [symmetric] split: option.splits)
    then show ?thesis using evs by auto
  qed
qed

lemma plot_row_frame:
  "\<exists>evs. trace_of (plot_row E pr ar i js M s) = snd s @ evs \<and>
      list_all is_predict_or_plot evs \<and>
      (predict_read_only E \<longrightarrow> world_of (plot_row E pr ar i js M s) = fst s)"
proof (induction js arbitrary: M s)
  case Nil
  then show ?case by simp
next
  case (Cons j js)
  from plot_cell_frame [of E pr ar i j M s] obtain evs where
    evs: "trace_of (plot_cell E pr ar i j M s) = snd s @ evs" "list_all is_predict_or_plot evs"
      "predict_read_only E \<longrightarrow> world_of (plot_cell E pr ar i j M s) = fst s"
    by blast
  show ?case
  proof (cases "plot_cell E pr ar i j M s")
    case (Returned M' s')
    from Cons.IH [of M' s'] obtain evs' where
      evs': "trace_of (plot_row E pr ar i js M' s') = snd s' @ evs'"
        "list_all is_predict_or_plot evs'"
        "predict_read_only E \<longrightarrow> world_of (plot_row E pr ar i js M' s') = fst s'"
      by blast
    have "trace_of (plot_row E pr ar i (j # js) M s) = snd s @ (evs @ evs')"
      using Returned evs(1) evs'(1) by simp
    moreover have "list_all is_predict_or_plot (evs @ evs')"
      using evs(2) evs'(2) by simp
    moreover have "predict_read_only E \<longrightarrow> world_of (plot_row E pr ar i (j # js) M s) = fst s"
      using Returned evs(3) evs'(3) by simp
    ultimately show ?thesis by blast
  next
    case (Raised e s')
    then show ?thesis using evs by auto
  next
    case (Diverged s')
    then show ?thesis using evs by auto
  qed
qed

lemma plot_grid_frame:
  "\<exists>evs. trace_of (plot_grid E pr ar is js M s) = snd s @ evs \<and>
      list_all is_predict_or_plot evs \<and>
      (predict_read_only E \<longrightarrow> world_of (plot_grid E pr ar is js M s) = fst s)"
proof (induction "is" arbitrary: M s)
  case Nil
  then show ?case by simp
next
  case (Cons i "is")
  from plot_row_frame [of E pr ar i js M s] obtain evs where
    evs: "trace_of (plot_row E pr ar i js M s) = snd s @ evs" "list_all is_predict_or_plot evs"
      "predict_read_only E \<longrightarrow> world_of (plot_row E pr ar i js M s) = fst s"
    by blast
  show ?case
  proof (cases "plot_row E pr ar i js M s")
    case (Returned M' s')
    from Cons.IH [of M' s'] obtain evs' where
      evs': "trace_of (plot_grid E pr ar is js M' s') = snd s' @ evs'"
        "list_all is_predict_or_plot evs'"
        "predict_read_only E \<longrightarrow> world_of (plot_grid E pr ar is js M' s') = fst s'"
      by blast
    have "trace_of (plot_grid E pr ar (i # is) js M s) = snd s @ (evs @ evs')"
      using Returned evs(1) evs'(1) by simp
    moreover have "list_all is_predict_or_plot (evs @ evs')"
      using evs(2) evs'(2) by simp
    moreover have "predict_read_only E \<longrightarrow> world_of (plot_grid E pr ar (i # is) js M s) = fst s"
      using Returned evs(3) evs'(3) by simp
    ultimately show ?thesis by blast
  next
    case (Raised e s')
    then show ?thesis using evs by auto
  next
    case (Diverged s')
    then show ?thesis using evs by auto
  qed
qed

lemma plot_Q_frame:
  "\<exists>evs. trace_of (plot_Q E s) = snd s @ evs \<and>
      list_all is_predict_or_plot evs \<and>
      (predict_read_only E \<longrightarrow> world_of (plot_Q E s) = fst s)"
proof -
  define pr where "pr = np_arange (- 1) (1 + 0.1) 0.1"
  define zeros where "zeros = replicate (length pr) (replicate (length pr) (0::real))"
  define M0 where "M0 = \<lparr>matrix_Q = zeros, matrix_mQ = zeros, matrix_sQ = zeros, matrix_A = zeros\<rparr>"
  define g where "g = plot_grid E pr pr [0..<length pr] [0..<length pr] M0 s"
  from plot_grid_frame [of E pr pr "[0..<length pr]" "[0..<length pr]" M0 s] obtain evs where
    evs: "trace_of g = snd s @ evs" "list_all is_predict_or_plot evs"
      "predict_read_only E \<longrightarrow> world_of g = fst s"
    unfolding g_def by blast
  have unf: "plot_Q E s =
      (case g of
         Returned M s' \<Rightarrow>
           (if pr = [] then Raised IndexError s'
            else Returned ()
                   (fst s', snd s' @ [ShowPlots (matrix_Q M) (matrix_sQ M) (matrix_mQ M) (matrix_A M)
                        [hd pr, last pr, hd pr, last pr]]))
       | Raised e s' \<Rightarrow> Raised e s'
       | Diverged s' \<Rightarrow> Diverged s')"
    unfolding plot_Q_def Let_def pr_def zeros_def M0_def g_def by (rule refl)
  show ?thesis
  proof (cases g)
    case (Returned M s')
    show ?thesis
    proof (cases "pr = []")
      case True
      then show ?thesis using unf Returned evs by auto
    next
      case False
      define e where "e = ShowPlots (matrix_Q M) (matrix_sQ M) (matrix_mQ M) (matrix_A M)
                        [hd pr, last pr, hd pr, last pr]"
      have "trace_of (plot_Q E s) = snd s @ (evs @ [e])"
        using unf Returned False evs(1) by (simp add: e_def)
      moreover have "list_all is_predict_or_plot (evs @ [e])"
        using evs(2) by (simp add: e_def)
      moreover have "predict_read_only E \<longrightarrow> world_of (plot_Q E s) = fst s"
        using unf Returned False evs(3) by simp
      ultimately show ?thesis by blast
    qed
  next
    case (Raised e s')
    then show ?thesis using unf evs by auto
  next
    case (Diverged s')
    then show ?thesis using unf evs by auto
  qed
qed

lemma predict_or_plot_no_agent_call:
  "list_all is_predict_or_plot evs \<Longrightarrow> agent_calls evs = []"
proof (induction evs)
  case Nil
  then show ?case by (simp add: agent_calls_def)
next
  case (Cons e evs)
  then show ?case by (cases e) (simp_all add: agent_calls_def)
qed

lemma demo_read_only: "predict_read_only demo"
  by (simp add: predict_read_only_def demo_def)

lemma np_arange_length: "length (np_arange (- 1) (1 + 0.1) 0.1) = 21"
  by (simp add: np_arange_def)

lemma predict_Q_list_length:
  "length (fst (predict_Q_list E st acts Q_list s)) = length Q_list + length acts"
  by (induction acts arbitrary: Q_list s) (simp_all split: prod.splits)

lemma plot_cell_returns:
  assumes "ar \<noteq> []"
  shows "\<exists>M' s'. plot_cell E pr ar i j M s = Returned M' s'"
proof -
  define st where "st = [pr ! j, pr ! i]"
  obtain Q_list s1 where q: "predict_Q_list E st ar [] s = (Q_list, s1)"
    by (cases "predict_Q_list E st ar [] s")
  have "length Q_list = length ar"
    using predict_Q_list_length [of E st ar "[]" s] q by simp
  with assms have ne: "Q_list \<noteq> []" by auto
  then obtain mx where mx: "np_max Q_list = Some mx"
    by (cases Q_list) (simp_all add: np_max_def)
  then obtain k where k: "np_argmax Q_list = Some k"
    by (simp add: np_argmax_def)
  from ne obtain sd where sd: "np_std Q_list = Some sd"
    by (simp add: np_std_def np_mean_def)
  obtain a w2 where ap: "actor_predict E st (fst s1) = (a, w2)"
    by (cases "actor_predict E st (fst s1)")
  show ?thesis
    using q mx k sd ap by (simp add: plot_cell_def Let_def st_def [symmetric])
qed

lemma plot_row_returns:
  assumes "ar \<noteq> []"
  shows "\<exists>M' s'. plot_row E pr ar i js M s = Returned M' s'"
proof (induction js arbitrary: M s)
  case Nil
  then show ?case by simp
next
  case (Cons j js)
  from plot_cell_returns [OF assms] obtain M1 s1 where
    "plot_cell E pr ar i j M s = Returned M1 s1"
    by blast
  then show ?case using Cons.IH [of M1 s1] by simp
qed

lemma plot_grid_returns:
  assumes "ar \<noteq> []"
  shows "\<exists>M' s'. plot_grid E pr ar is js M s = Returned M' s'"
proof (induction "is" arbitrary: M s)
  case Nil
  then show ?case by simp
next
  case (Cons i "is")
  from plot_row_returns [OF assms] obtain M1 s1 where
    "plot_row E pr ar i js M s = Returned M1 s1"
    by blast
  then show ?case using Cons.IH [of M1 s1] by simp
qed

lemma plot_Q_returns: "\<exists>s'. plot_Q E s = Returned () s'"
proof -
  define pr where "pr = np_arange (- 1) (1 + 0.1) 0.1"
  define zeros where "zeros = replicate (length pr) (replicate (length pr) (0::real))"
  define M0 where "M0 = \<lparr>matrix_Q = zeros, matrix_mQ = zeros, matrix_sQ = zeros, matrix_A = zeros\<rparr>"
  define g where "g = plot_grid E pr pr [0..<length pr] [0..<length pr] M0 s"
  have ne: "pr \<noteq> []"
    using np_arange_length unfolding pr_def by fastforce
  have unf: "plot_Q E s =
      (case g of
         Returned M s' \<Rightarrow>
           (if pr = [] then Raised IndexError s'
            else Returned ()
                   (fst s', snd s' @ [ShowPlots (matrix_Q M) (matrix_sQ M) (matrix_mQ M) (matrix_A M)
                        [hd pr, last pr, hd pr, last pr]]))
       | Raised e s' \<Rightarrow> Raised e s'
       | Diverged s' \<Rightarrow> Diverged s')"
    unfolding plot_Q_def Let_def pr_def zeros_def M0_def g_def by (rule refl)
  from plot_grid_returns [OF ne] obtain M1 s1 where "g = Returned M1 s1"
    unfolding g_def by blast
  then show ?thesis using unf ne by simp
qed

text \<open>
  C7. Whatever the state of the agent, \<open>plot_Q\<close> returns, and the calls it makes
  are predictions of \<open>critic_local\<close> and \<open>actor_local\<close> and the plots: no
  \<open>reset_episode\<close>, \<open>act\<close> or \<open>step\<close> of the agent (and no call of the
  environment). When a prediction changes nothing, the state after \<open>plot_Q\<close> is
  the state before it.
\<close>

theorem plot_Q_only_predicts:
  "\<exists>w' evs. plot_Q E (w, tr) = Returned () (w', tr @ evs) \<and>
      list_all is_predict_or_plot evs \<and>
      agent_calls evs = [] \<and>
      (predict_read_only E \<longrightarrow> w' = w)"
proof -
  from plot_Q_returns obtain s' where r: "plot_Q E (w, tr) = Returned () s'"
    by blast
  from plot_Q_frame [of E "(w, tr)"] obtain evs where
    "trace_of (plot_Q E (w, tr)) = tr @ evs" "list_all is_predict_or_plot evs"
    "predict_read_only E \<longrightarrow> world_of (plot_Q E (w, tr)) = w"
    by auto
  then have "plot_Q E (w, tr) = Returned () (fst s', tr @ evs)"
    "list_all is_predict_or_plot evs" "agent_calls evs = []"
    "predict_read_only E \<longrightarrow> fst s' = w"
    using r predict_or_plot_no_agent_call by (auto simp: prod_eq_iff)
  then show ?thesis by blast
qed

theorem plot_Q_only_predicts_witness:
  "predict_read_only demo \<and> world_of (plot_Q demo ((3, 1), [])) = (3, 1)"
  using plot_Q_only_predicts [of demo "(3, 1)" "[]"] demo_read_only by auto

section \<open>The training run\<close>

lemma episodes_from_neutral:
  "list_all is_predict_or_plot evs \<Longrightarrow> episodes_from cur (pre @ evs) = episodes_from cur pre"
proof (induction pre arbitrary: cur)
  case Nil
  then show ?case
  proof (induction evs)
    case Nil
    then show ?case by simp
  next
    case (Cons e evs)
    then show ?case by (cases e) simp_all
  qed
next
  case (Cons e pre)
  then show ?case by (cases e) simp_all
qed

lemma run_epoch_episode:
  assumes "run_epoch fuel E render training s = Returned (tot, d, am, asd, n) s'"
  shows "\<exists>evs. snd s' = snd s @ evs \<and>
     (\<forall>cur pre. episodes_from cur (pre @ evs) = episodes_from cur pre @ [(tot, n)])"
proof -
  obtain w tr where s: "s = (w, tr)" by (cases s)
  from run_epoch_Returned [OF assms [unfolded s]] obtain raw st evs where
    e: "snd s' = tr @ EnvReset raw # ResetEpisode st # evs"
      "tot = sum_list (step_rewards evs)" "n = length (step_rewards evs)"
      "\<forall>st. EnvReset st \<notin> set evs"
    by blast
  have "episodes_from cur (pre @ EnvReset raw # ResetEpisode st # evs) =
      episodes_from cur pre @ [(tot, n)]" for cur pre
    using e(2-4) by (simp add: episodes_from_append_reset episodes_from_no_reset)
  then show ?thesis using e(1) s by auto
qed

lemma run_model_loop_step:
  assumes "run_model_loop fuel E n r (epoch # epochs) th teh s = Returned res s'"
  shows "\<exists>trr trd tram tras trs s1 ter ted team teas tes s2.
     run_epoch fuel E False True s = Returned (trr, trd, tram, tras, trs) s1 \<and>
     run_epoch fuel E False False s1 = Returned (ter, ted, team, teas, tes) s2 \<and>
     (if solved_at n r epoch (teh @ [(ter, tes)])
      then res = (th @ [(trr, trs)], teh @ [(ter, tes)], Some epoch) \<and> s' = s2
      else run_model_loop fuel E n r epochs (th @ [(trr, trs)]) (teh @ [(ter, tes)]) s2 =
             Returned res s')"
proof -
  from assms obtain x1 s1 where e1: "run_epoch fuel E False True s = Returned x1 s1"
    by (cases "run_epoch fuel E False True s") simp_all
  obtain trr trd tram tras trs where x1: "x1 = (trr, trd, tram, tras, trs)"
    by (cases x1)
  from assms e1 x1 obtain x2 s2 where e2: "run_epoch fuel E False False s1 = Returned x2 s2"
    by (cases "run_epoch fuel E False False s1") simp_all
  obtain ter ted team teas tes where x2: "x2 = (ter, ted, team, teas, tes)"
    by (cases x2)
  have "if solved_at n r epoch (teh @ [(ter, tes)])
      then res = (th @ [(trr, trs)], teh @ [(ter, tes)], Some epoch) \<and> s' = s2
      else run_model_loop fuel E n r epochs (th @ [(trr, trs)]) (teh @ [(ter, tes)]) s2 =
             Returned res s'"
    using assms e1 x1 e2 x2
    by (auto simp: solved_at_def Let_def split: if_splits)
  then show ?thesis using e1 x1 e2 x2 by blast
qed

lemma upto_Cons_eq:
  assumes "e # es = [a..m]"
  shows "a \<le> m \<and> e = a \<and> es = [a + 1..m]"
proof (cases "a \<le> m")
  case True
  then show ?thesis using assms by (simp add: upto_rec1)
next
  case False
  then show ?thesis using assms by simp
qed

lemma interleave_Cons: "interleave (x # xs) (y # ys) = x # y # interleave xs ys"
  by (simp add: interleave_def)

lemma interleave_Nil: "interleave [] [] = []"
  by (simp add: interleave_def)

lemma run_model_loop_Returned:
  assumes "run_model_loop fuel E n r es th teh s = Returned (th', teh', sv) s'"
    and "es = [a..m]" and "a = int (length teh) + 1"
  shows "\<exists>evs tx ex. snd s' = snd s @ evs \<and> th' = th @ tx \<and> teh' = teh @ ex \<and>
     length tx = length ex \<and>
     (\<forall>cur pre. episodes_from cur (pre @ evs) = episodes_from cur pre @ interleave tx ex) \<and>
     int (length ex) \<le> max 0 (m - a + 1) \<and>
     (\<forall>k. length teh < k \<and> k < length teh' \<longrightarrow> \<not> solved_at n r (int k) (take k teh')) \<and>
     (case sv of
        None \<Rightarrow> ex = [] \<or> \<not> solved_at n r (int (length teh')) teh'
      | Some e \<Rightarrow> ex \<noteq> [] \<and> e = int (length teh') \<and> solved_at n r e teh')"
  using assms
proof (induction es arbitrary: a th teh s)
  case Nil
  then have "th' = th" "teh' = teh" "sv = None" "s' = s" by simp_all
  then show ?case by (auto simp: interleave_Nil)
next
  case (Cons e es)
  from upto_Cons_eq [OF Cons.prems(2)] have am: "a \<le> m" and ea: "e = a" and es: "es = [a + 1..m]"
    by simp_all
  from run_model_loop_step [OF Cons.prems(1)] obtain trr trd tram tras trs s1 ter ted team teas tes s2
    where e1: "run_epoch fuel E False True s = Returned (trr, trd, tram, tras, trs) s1"
      and e2: "run_epoch fuel E False False s1 = Returned (ter, ted, team, teas, tes) s2"
      and br: "if solved_at n r e (teh @ [(ter, tes)])
        then (th', teh', sv) = (th @ [(trr, trs)], teh @ [(ter, tes)], Some e) \<and> s' = s2
        else run_model_loop fuel E n r es (th @ [(trr, trs)]) (teh @ [(ter, tes)]) s2 =
               Returned (th', teh', sv) s'"
    by blast
  from run_epoch_episode [OF e1] obtain evs1 where
    evs1: "snd s1 = snd s @ evs1"
      "\<And>cur pre. episodes_from cur (pre @ evs1) = episodes_from cur pre @ [(trr, trs)]"
    by blast
  from run_epoch_episode [OF e2] obtain evs2 where
    evs2: "snd s2 = snd s1 @ evs2"
      "\<And>cur pre. episodes_from cur (pre @ evs2) = episodes_from cur pre @ [(ter, tes)]"
    by blast
  have ep2: "episodes_from cur (pre @ evs1 @ evs2) =
      episodes_from cur pre @ [(trr, trs), (ter, tes)]" for cur pre
    using evs2(2) [of cur "pre @ evs1"] evs1(2) [of cur pre] by simp
  define th1 where "th1 = th @ [(trr, trs)]"
  define teh1 where "teh1 = teh @ [(ter, tes)]"
  have len1: "int (length teh1) = a" using Cons.prems(3) by (simp add: teh1_def)
  show ?case
  proof (cases "solved_at n r e (teh @ [(ter, tes)])")
    case True
    with br have res: "th' = th @ [(trr, trs)]" "teh' = teh @ [(ter, tes)]" "sv = Some e" "s' = s2"
      by simp_all
    have f1: "snd s' = snd s @ (evs1 @ evs2)" using res(4) evs1(1) evs2(1) by simp
    have f5: "\<forall>cur pre. episodes_from cur (pre @ (evs1 @ evs2)) =
        episodes_from cur pre @ interleave [(trr, trs)] [(ter, tes)]"
      using ep2 by (simp add: interleave_Cons interleave_Nil)
    have f6: "int (length [(ter, tes)]) \<le> max 0 (m - a + 1)" using am by simp
    have f7: "\<forall>k. length teh < k \<and> k < length teh' \<longrightarrow>
        \<not> solved_at n r (int k) (take k teh')"
    proof (intro allI impI)
      fix k assume k: "length teh < k \<and> k < length teh'"
      have "length teh' = Suc (length teh)" using res(2) by simp
      with k have False by linarith
      then show "\<not> solved_at n r (int k) (take k teh')" ..
    qed
    have f8: "case sv of
        None \<Rightarrow> [(ter, tes)] = [] \<or> \<not> solved_at n r (int (length teh')) teh'
      | Some e \<Rightarrow> [(ter, tes)] \<noteq> [] \<and> e = int (length teh') \<and> solved_at n r e teh'"
      using res(2,3) True ea Cons.prems(3) by simp
    have f2: "th' = th @ [(trr, trs)]" and f3: "teh' = teh @ [(ter, tes)]"
      using res(1,2) by simp_all
    have f4: "length [(trr, trs)] = length [(ter, tes)]" by simp
    show ?thesis
      apply (intro exI conjI)
             apply (rule f1)
            apply (rule f2)
           apply (rule f3)
          apply (rule f4)
         apply (rule f5)
        apply (rule f6)
       apply (rule f7)
      apply (rule f8)
      done
  next
    case False
    with br have rec: "run_model_loop fuel E n r es th1 teh1 s2 = Returned (th', teh', sv) s'"
      by (simp add: th1_def teh1_def)
    have a1: "a + 1 = int (length teh1) + 1" using len1 by simp
    from Cons.IH [OF rec es a1] obtain evs tx ex where
      ih: "snd s' = snd s2 @ evs" "th' = th1 @ tx" "teh' = teh1 @ ex" "length tx = length ex"
        "\<And>cur pre. episodes_from cur (pre @ evs) = episodes_from cur pre @ interleave tx ex"
        "int (length ex) \<le> max 0 (m - (a + 1) + 1)"
        "\<And>k. length teh1 < k \<and> k < length teh' \<Longrightarrow> \<not> solved_at n r (int k) (take k teh')"
        "case sv of
           None \<Rightarrow> ex = [] \<or> \<not> solved_at n r (int (length teh')) teh'
         | Some e \<Rightarrow> ex \<noteq> [] \<and> e = int (length teh') \<and> solved_at n r e teh'"
      by blast
    have nf: "\<not> solved_at n r (int (length teh1)) teh1"
      using False ea len1 by (simp add: teh1_def)
    have g1: "snd s' = snd s @ (evs1 @ evs2 @ evs)" using ih(1) evs1(1) evs2(1) by simp
    have g2: "th' = th @ ((trr, trs) # tx)" using ih(2) by (simp add: th1_def)
    have g3: "teh' = teh @ ((ter, tes) # ex)" using ih(3) by (simp add: teh1_def)
    have g4: "length ((trr, trs) # tx) = length ((ter, tes) # ex)" using ih(4) by simp
    have g5: "\<forall>cur pre. episodes_from cur (pre @ (evs1 @ evs2 @ evs)) =
        episodes_from cur pre @ interleave ((trr, trs) # tx) ((ter, tes) # ex)"
    proof (intro allI)
      fix cur pre
      have "episodes_from cur (pre @ (evs1 @ evs2 @ evs)) =
          episodes_from cur ((pre @ evs1 @ evs2) @ evs)"
        by simp
      also have "\<dots> = episodes_from cur (pre @ evs1 @ evs2) @ interleave tx ex"
        by (rule ih(5))
      finally show "episodes_from cur (pre @ (evs1 @ evs2 @ evs)) =
          episodes_from cur pre @ interleave ((trr, trs) # tx) ((ter, tes) # ex)"
        by (simp add: ep2 interleave_Cons)
    qed
    have g6: "int (length ((ter, tes) # ex)) \<le> max 0 (m - a + 1)"
      using ih(6) am by simp
    have g7: "\<forall>k. length teh < k \<and> k < length teh' \<longrightarrow>
        \<not> solved_at n r (int k) (take k teh')"
    proof (intro allI impI)
      fix k assume k: "length teh < k \<and> k < length teh'"
      show "\<not> solved_at n r (int k) (take k teh')"
      proof (cases "k = length teh1")
        case True
        then have "take k teh' = teh1" using ih(3) by simp
        then show ?thesis using nf True by simp
      next
        case False
        with k have "length teh1 < k \<and> k < length teh'" by (simp add: teh1_def)
        then show ?thesis by (rule ih(7))
      qed
    qed
    have g8: "case sv of
        None \<Rightarrow> (ter, tes) # ex = [] \<or> \<not> solved_at n r (int (length teh')) teh'
      | Some e \<Rightarrow> (ter, tes) # ex \<noteq> [] \<and> e = int (length teh') \<and> solved_at n r e teh'"
    proof (cases sv)
      case None
      show ?thesis
      proof (cases "ex = []")
        case True
        then have "teh' = teh1" using ih(3) by simp
        then show ?thesis using nf None by simp
      next
        case False
        then show ?thesis using ih(8) None by simp
      qed
    next
      case (Some e')
      then show ?thesis using ih(8) by clarsimp
    qed
    show ?thesis
      apply (intro exI conjI)
             apply (rule g1)
            apply (rule g2)
           apply (rule g3)
          apply (rule g4)
         apply (rule g5)
        apply (rule g6)
       apply (rule g7)
      apply (rule g8)
      done
  qed
qed

lemma upto_1_2: "[1..2] = [1, 2::int]"
  by (simp add: upto_rec1)

lemma demo_run_90:
  "solved_value (run_model (Suc (Suc 0)) demo 2 1 90 False ((0, 0), [])) = Some None"
  "test_rewards (run_model (Suc (Suc 0)) demo 2 1 90 False ((0, 0), [])) = Some [95, 50]"
  by (simp_all add: run_model_def upto_1_2 run_epoch_def loop_body_def demo_def
      preprocess_state_def np_mean_def np_std_def Let_def slice_from_def nan_gt_def)

lemma first_exceeding_demo: "first_exceeding 1 90 [95, 50] = Some 1"
  by (simp add: first_exceeding_def running_mean_def last_n_def upt_rec)

lemma demo_run_40:
  "run_model (Suc (Suc 0)) demo 2 1 40 False ((0, 0), []) =
     Returned ([(50, 2), (50, 2)], [(95, 2), (50, 2)], Some 2)
       ((4, 2), demo_train_trace @ demo_test_trace @ demo_train_trace @ demo_plain_test_trace)"
  by (simp add: run_model_def upto_1_2 run_epoch_def loop_body_def demo_def
      preprocess_state_def np_mean_def np_std_def Let_def slice_from_def nan_gt_def
      demo_train_trace_def demo_test_trace_def demo_plain_test_trace_def)

lemma length_interleave: "length xs = length ys \<Longrightarrow> length (interleave xs ys) = 2 * length xs"
proof (induction xs arbitrary: ys)
  case Nil
  then show ?case by (simp add: interleave_def)
next
  case (Cons x xs)
  then obtain y ys' where "ys = y # ys'" by (cases ys) auto
  with Cons show ?case by (simp add: interleave_Cons)
qed

lemma run_model_Returned:
  assumes "run_model fuel E max_epochs n r flag s = Returned (th, teh, sv) s'"
  shows "\<exists>evs. snd s' = snd s @ evs \<and> length th = length teh \<and>
     episodes evs = interleave th teh \<and>
     int (length teh) \<le> max 0 max_epochs \<and>
     (\<forall>k. 0 < k \<and> k < length teh \<longrightarrow> \<not> solved_at n r (int k) (take k teh)) \<and>
     (case sv of
        None \<Rightarrow> teh = [] \<or> \<not> solved_at n r (int (length teh)) teh
      | Some e \<Rightarrow> teh \<noteq> [] \<and> e = int (length teh) \<and> solved_at n r e teh)"
proof -
  from assms obtain s1 where
    loop: "run_model_loop fuel E n r [1..max_epochs] [] [] s = Returned (th, teh, sv) s1"
    and fin: "if flag then (\<exists>u. plot_Q E s1 = Returned u s') else s' = s1"
    by (auto simp: run_model_def split: outcome.splits if_splits)
  from run_model_loop_Returned [OF loop refl, of] obtain evs tx ex where
    l: "snd s1 = snd s @ evs" "th = [] @ tx" "teh = [] @ ex" "length tx = length ex"
      "\<And>cur pre. episodes_from cur (pre @ evs) = episodes_from cur pre @ interleave tx ex"
      "int (length ex) \<le> max 0 (max_epochs - 1 + 1)"
      "\<And>k. length ([] :: hist) < k \<and> k < length teh \<Longrightarrow> \<not> solved_at n r (int k) (take k teh)"
      "case sv of
         None \<Rightarrow> ex = [] \<or> \<not> solved_at n r (int (length teh)) teh
       | Some e \<Rightarrow> ex \<noteq> [] \<and> e = int (length teh) \<and> solved_at n r e teh"
    by auto
  obtain pevs where p: "snd s' = snd s1 @ pevs" "list_all is_predict_or_plot pevs"
  proof (cases flag)
    case True
    with fin obtain u where "plot_Q E s1 = Returned u s'" by auto
    with plot_Q_frame [of E s1] show ?thesis using that by auto
  next
    case False
    with fin have "snd s' = snd s1 @ []" by simp
    then show ?thesis using that by simp
  qed
  have e: "episodes (evs @ pevs) = interleave th teh"
    using l(5) [of None "[]"] l(2,3) p(2) by (simp add: episodes_def episodes_from_neutral)
  have "snd s' = snd s @ (evs @ pevs)" using p(1) l(1) by simp
  moreover have "length th = length teh" using l(2-4) by simp
  moreover have "int (length teh) \<le> max 0 max_epochs" using l(3,6) by simp
  moreover have "\<forall>k. 0 < k \<and> k < length teh \<longrightarrow> \<not> solved_at n r (int k) (take k teh)"
    using l(7) by simp
  moreover have "case sv of
        None \<Rightarrow> teh = [] \<or> \<not> solved_at n r (int (length teh)) teh
      | Some e \<Rightarrow> teh \<noteq> [] \<and> e = int (length teh) \<and> solved_at n r e teh"
    using l(8) l(3) by (cases sv) auto
  ultimately show ?thesis using e by (intro exI [of _ "evs @ pevs"]) simp
qed

text \<open>
  C10. When \<open>run_model\<close> returns, \<open>train_hist\<close> and \<open>test_hist\<close> have the same
  length, which is at most \<open>max_epochs\<close> (no epoch runs when \<open>max_epochs\<close> is not
  positive) and is the number of epochs run: the episodes of the run are twice as
  many, and their rewards and numbers of steps are, in the order of the run, the
  entries of the two histories, training then test for each epoch. The value
  \<open>solved\<close> is \<open>False\<close> or the last epoch run, at which the solved condition held.
\<close>

theorem run_model_histories:
  assumes "run_model fuel E max_epochs n_solved r_solved plot_Q_flag (w, tr) =
             Returned (train_hist, test_hist, solved) s'"
  shows "length train_hist = length test_hist \<and>
         length train_hist \<le> nat max_epochs \<and>
         episodes (drop (length tr) (snd s')) = interleave train_hist test_hist \<and>
         length (episodes (drop (length tr) (snd s'))) = 2 * length train_hist \<and>
         (solved = None \<or>
          solved = Some (int (length test_hist)) \<and>
          solved_at n_solved r_solved (int (length test_hist)) test_hist)"
proof -
  from run_model_Returned [OF assms] obtain evs where
    r: "snd s' = tr @ evs" "length train_hist = length test_hist"
      "episodes evs = interleave train_hist test_hist"
      "int (length test_hist) \<le> max 0 max_epochs"
      "case solved of
         None \<Rightarrow> test_hist = [] \<or> \<not> solved_at n_solved r_solved (int (length test_hist)) test_hist
       | Some e \<Rightarrow> test_hist \<noteq> [] \<and> e = int (length test_hist) \<and>
                    solved_at n_solved r_solved e test_hist"
    by auto
  have "length train_hist \<le> nat max_epochs" using r(2,4) by linarith
  moreover have "episodes (drop (length tr) (snd s')) = interleave train_hist test_hist"
    using r(1,3) by simp
  moreover have "solved = None \<or>
      solved = Some (int (length test_hist)) \<and>
      solved_at n_solved r_solved (int (length test_hist)) test_hist"
    using r(5) by (cases solved) clarsimp+
  ultimately show ?thesis using r(2) by (simp add: length_interleave)
qed

theorem run_model_histories_witness:
  "run_model (Suc (Suc 0)) demo 2 1 40 False ((0, 0), []) =
     Returned ([(50, 2), (50, 2)], [(95, 2), (50, 2)], Some 2)
       ((4, 2), demo_train_trace @ demo_test_trace @ demo_train_trace @ demo_plain_test_trace) \<and>
   episodes (demo_train_trace @ demo_test_trace @ demo_train_trace @ demo_plain_test_trace) =
     [(50, 2), (95, 2), (50, 2), (50, 2)] \<and>
   solved_at 1 40 2 [(95, 2), (50, 2)]"
  using run_model_histories [OF demo_run_40] demo_run_40
  by (simp add: interleave_def)

text \<open>
  A run of at most \<open>n_solved\<close> epochs is never reported solved, whatever the
  rewards: the test \<open>epoch > n_solved\<close> is false at each of its epochs.
\<close>

lemma run_model_never_solved_early:
  assumes "run_model fuel E max_epochs n_solved r_solved plot_Q_flag s =
             Returned (train_hist, test_hist, solved) s'"
    and "max_epochs \<le> n_solved"
  shows "solved = None"
proof (cases solved)
  case None
  then show ?thesis .
next
  case (Some e)
  from run_model_Returned [OF assms(1)] have
    len: "int (length test_hist) \<le> max 0 max_epochs" and
    at: "case solved of
         None \<Rightarrow> test_hist = [] \<or> \<not> solved_at n_solved r_solved (int (length test_hist)) test_hist
       | Some e \<Rightarrow> test_hist \<noteq> [] \<and> e = int (length test_hist) \<and>
                    solved_at n_solved r_solved e test_hist"
    by auto
  from at Some have "test_hist \<noteq> []" "n_solved < int (length test_hist)"
    by (auto simp: solved_at_def)
  with len assms(2) show ?thesis by (cases test_hist) auto
qed

text \<open>
  C1. The code misses what the claim, and its own comment (if the mean of the last
  \<open>n_solved\<close> test episodes is greater than \<open>r_solved\<close>, it is solved), say: with
  \<open>n_solved = 1\<close> and \<open>r_solved = 90\<close>, the test reward of the first epoch is 95, so
  that the running mean of the last test reward exceeds \<open>r_solved\<close> first at epoch
  1, where the window of \<open>n_solved\<close> rewards is full; the test \<open>epoch > n_solved\<close>
  is false there, the run goes on to epoch 2 (test reward 50) and returns \<open>solved =
  False\<close>.
\<close>

theorem run_model_not_first_exceeding:
  "solved_value (run_model (Suc (Suc 0)) demo 2 1 90 False ((0, 0), [])) = Some None \<and>
   test_rewards (run_model (Suc (Suc 0)) demo 2 1 90 False ((0, 0), [])) = Some [95, 50] \<and>
   first_exceeding 1 90 [95, 50] = Some 1"
  using demo_run_90 first_exceeding_demo by simp

end
